theory Spec2Isabelle
  imports Complex_Main "HOL-Library.AList" "HOL-Library.Monad_Syntax" "HOL-Library.Multiset"
    "HOL-Library.Sublist"
begin

section \<open>Data model of the scheduler (src/src/App.tsx)\<close>

text \<open>
  The four location tags of \<^verbatim>\<open>SITES\<close>. In the source they are the strings
  \<^verbatim>\<open>"GC"\<close>, \<^verbatim>\<open>"ISSY"\<close>, \<^verbatim>\<open>"REMOTE"\<close> and \<^verbatim>\<open>"OOO"\<close>;
  \<^verbatim>\<open>generateSchedule\<close> and \<^verbatim>\<open>parseCSV\<close> never store any other string in a table.
\<close>

datatype site = GC | ISSY | REMOTE | OOO

text \<open>\<^verbatim>\<open>SITES.GC.capacity\<close> and \<^verbatim>\<open>SITES.ISSY.capacity\<close>.\<close>

definition capacity_GC :: nat where
  "capacity_GC = 5"

definition capacity_ISSY :: nat where
  "capacity_ISSY = 12"

text \<open>An entry of \<^verbatim>\<open>PEOPLE\<close>: \<^verbatim>\<open>{ id, name, prefs: { gcShare, issyShare, remoteShare } }\<close>.\<close>

record preferences =
  gcShare :: int
  issyShare :: int
  remoteShare :: int

record person =
  pid :: string
  name :: string
  prefs :: preferences

text \<open>
  The objects \<^verbatim>\<open>{ gc, issy, remote }\<close> stored in \<^verbatim>\<open>targetDays\<close> and
  \<^verbatim>\<open>actualDays\<close>.
\<close>

record counters =
  gc :: int
  issy :: int
  remote :: int

text \<open>
  A business day is represented by the string \<^verbatim>\<open>yyyyMMdd(d)\<close>, the only way
  \<^verbatim>\<open>generateSchedule\<close> looks at a day. The list \<^verbatim>\<open>monthDays\<close> that the source
  computes from \<^verbatim>\<open>monthStart\<close> with the date library (\<^verbatim>\<open>eachDayOfInterval\<close>,
  \<^verbatim>\<open>isWeekend\<close>) is a parameter of the model.

  A JavaScript object with string keys is an association list in insertion order:
  \<^const>\<open>map_of\<close> reads a key, \<^const>\<open>AList.update\<close> overwrites a key in place or appends a new
  one. The table \<^verbatim>\<open>plan\<close> maps a day to a row, a row maps a person id to a tag, and
  \<^verbatim>\<open>oooData\<close> maps a person id to the array of that person's absence days.
\<close>

type_synonym iso = string
type_synonym row = "(string \<times> site) list"
type_synonym plan = "(iso \<times> row) list"
type_synonym oooData = "(string \<times> iso list) list"
type_synonym counterMap = "string \<rightharpoonup> counters"

section \<open>Priority scorer\<close>

text \<open>
  Numbers are JavaScript doubles in the source. The shares are integers and the counters
  are small integers, so the model computes with exact rationals: the sign of a
  priority and the order of two priorities are the same in both (two different
  priorities differ by at least \<open>1/100\<close>).
\<close>

definition calculateGCPriority :: "person \<Rightarrow> counters \<Rightarrow> counters \<Rightarrow> rat" where
  "calculateGCPriority p actual target =
     (let deficit = of_int (gc target - gc actual);
          basePreference = of_int (gcShare (prefs p)) / 100
      in deficit * 2 + basePreference)"

definition calculateIssyPriority :: "person \<Rightarrow> counters \<Rightarrow> counters \<Rightarrow> rat" where
  "calculateIssyPriority p actual target =
     (let deficit = of_int (issy target - issy actual);
          basePreference = of_int (issyShare (prefs p)) / 100
      in deficit * 2 + basePreference)"

definition calculateRemotePriority :: "person \<Rightarrow> counters \<Rightarrow> counters \<Rightarrow> rat" where
  "calculateRemotePriority p actual target =
     (let deficit = of_int (remote target - remote actual);
          basePreference = of_int (remoteShare (prefs p)) / 100
      in deficit * 2 + basePreference)"

section \<open>Target allocator\<close>

text \<open>\<^verbatim>\<open>Math.round\<close>: the nearest integer, a half rounded towards plus infinity.\<close>

definition Math_round :: "rat \<Rightarrow> int" where
  "Math_round x = \<lfloor>x + 1 / 2\<rfloor>"

text \<open>
  \<^verbatim>\<open>oooData[personId]?.includes(iso)\<close>: false when the person has no entry.
\<close>

definition ooo_includes :: "oooData \<Rightarrow> string \<Rightarrow> iso \<Rightarrow> bool" where
  "ooo_includes oooData personId d =
     (case map_of oooData personId of None \<Rightarrow> False | Some dates \<Rightarrow> d \<in> set dates)"

definition availableDays :: "iso list \<Rightarrow> oooData \<Rightarrow> person \<Rightarrow> int" where
  "availableDays monthDays oooData p =
     int (length (filter (\<lambda>d. \<not> ooo_includes oooData (pid p) d) monthDays))"

text \<open>The body of the loop that fills \<^verbatim>\<open>targetDays\<close> (lines 88 to 98).\<close>

definition targetOf :: "iso list \<Rightarrow> oooData \<Rightarrow> person \<Rightarrow> counters" where
  "targetOf monthDays oooData p =
     (let avail = availableDays monthDays oooData p;
          gcTarget = Math_round ((of_int (gcShare (prefs p)) / 100) * of_int avail);
          issyTarget = Math_round ((of_int (issyShare (prefs p)) / 100) * of_int avail);
          remoteTarget = avail - gcTarget - issyTarget
      in \<lparr>gc = gcTarget, issy = issyTarget, remote = remoteTarget\<rparr>)"

definition targetDays :: "iso list \<Rightarrow> oooData \<Rightarrow> person list \<Rightarrow> counterMap" where
  "targetDays monthDays oooData people =
     fold (\<lambda>p m. m(pid p \<mapsto> targetOf monthDays oooData p)) people Map.empty"

section \<open>Override resolver\<close>

text \<open>\<^verbatim>\<open>Object.fromEntries\<close>: a later entry with the same key overwrites the earlier one.\<close>

definition fromEntries :: "(string \<times> site) list \<Rightarrow> row" where
  "fromEntries kvs = fold (\<lambda>(k, v). AList.update k v) kvs []"

text \<open>Lines 60 to 64: every business day gets a row with every roster person on REMOTE.\<close>

definition initPlan :: "iso list \<Rightarrow> person list \<Rightarrow> plan" where
  "initPlan monthDays people =
     fold (\<lambda>key. AList.update key (fromEntries (map (\<lambda>p. (pid p, REMOTE)) people))) monthDays []"

text \<open>\<^verbatim>\<open>plan[iso][personId] = siteId\<close>, for a day whose row exists.\<close>

definition plan_set :: "plan \<Rightarrow> iso \<Rightarrow> string \<Rightarrow> site \<Rightarrow> plan" where
  "plan_set plan d personId siteId = AList.map_entry d (AList.update personId siteId) plan"

text \<open>\<^verbatim>\<open>plan[iso]?.[personId]\<close>: the tag of a cell, if the row and the cell exist.\<close>

definition cell :: "plan \<Rightarrow> iso \<Rightarrow> string \<Rightarrow> site option" where
  "cell plan d personId = (case map_of plan d of None \<Rightarrow> None | Some r \<Rightarrow> map_of r personId)"

text \<open>
  Lines 66 to 73: the absence days of every entry of \<^verbatim>\<open>oooData\<close>, also of an id that
  is not in the roster, are written as OOO where the day has a row. \<open>markOOO\<close> is the
  body of the inner loop.
\<close>

definition markOOO :: "string \<Rightarrow> iso \<Rightarrow> plan \<Rightarrow> plan" where
  "markOOO personId d pl = (if map_of pl d \<noteq> None then plan_set pl d personId OOO else pl)"

definition applyOOO :: "plan \<Rightarrow> oooData \<Rightarrow> plan" where
  "applyOOO plan oooData =
     fold (\<lambda>(personId, dates). fold (markOOO personId) dates) oooData plan"

text \<open>
  Lines 75 to 83: on an all-hands day with a row, everybody who is not OOO goes to ISSY.
  \<open>forceISSY\<close> is the body of the inner loop, \<open>bubbleDay\<close> the body of the outer one.
\<close>

definition forceISSY :: "iso \<Rightarrow> person \<Rightarrow> plan \<Rightarrow> plan" where
  "forceISSY d p pl = (if cell pl d (pid p) \<noteq> Some OOO then plan_set pl d (pid p) ISSY else pl)"

definition bubbleDay :: "person list \<Rightarrow> iso \<Rightarrow> plan \<Rightarrow> plan" where
  "bubbleDay people d pl = (if map_of pl d = None then pl else fold (forceISSY d) people pl)"

definition applyBubbleLux :: "plan \<Rightarrow> iso list \<Rightarrow> person list \<Rightarrow> plan" where
  "applyBubbleLux plan bubbleLuxDates people = fold (bubbleDay people) bubbleLuxDates plan"

text \<open>
  Lines 100 to 107: the running counters; the ISSY counter starts at the number of entries
  of \<^verbatim>\<open>bubbleLuxDates\<close> on which the person is not absent.
\<close>

definition bubbleLuxCount :: "iso list \<Rightarrow> oooData \<Rightarrow> person \<Rightarrow> int" where
  "bubbleLuxCount bubbleLuxDates oooData p =
     int (length (filter (\<lambda>d. \<not> ooo_includes oooData (pid p) d) bubbleLuxDates))"

definition initActualDays :: "iso list \<Rightarrow> oooData \<Rightarrow> person list \<Rightarrow> counterMap" where
  "initActualDays bubbleLuxDates oooData people =
     fold (\<lambda>p m. m(pid p \<mapsto> \<lparr>gc = 0, issy = bubbleLuxCount bubbleLuxDates oooData p, remote = 0\<rparr>))
          people Map.empty"

section \<open>Usage aggregator\<close>

text \<open>
  \<^verbatim>\<open>dayUsage(iso)\<close> tallies the tags of a row, starting from zero for each of the four
  tags; \<open>dayUsage r s\<close> is its field \<open>s\<close>. \<^verbatim>\<open>computeUsage\<close> does the same for the
  display, with an empty row for a day that has none.
\<close>

definition dayUsage :: "row \<Rightarrow> site \<Rightarrow> nat" where
  "dayUsage r = fold (\<lambda>s acc. acc(s := acc s + 1)) (map snd r) (\<lambda>_. 0)"

definition computeUsage :: "plan \<Rightarrow> iso list \<Rightarrow> iso \<Rightarrow> (site \<Rightarrow> nat) option" where
  "computeUsage plan dayISOs =
     fold (\<lambda>d usage. usage(d \<mapsto> dayUsage (case map_of plan d of None \<Rightarrow> [] | Some r \<Rightarrow> r)))
          dayISOs Map.empty"

section \<open>Greedy assigner\<close>

text \<open>
  Reading \<^verbatim>\<open>actualDays[id]\<close> or \<^verbatim>\<open>targetDays[id]\<close> for an id without an entry gives
  \<^verbatim>\<open>undefined\<close>, and the property access that follows throws a TypeError; so does
  \<^verbatim>\<open>plan[iso][id]\<close> for a day without a row. In the model every such read is a
  branch with result \<open>None\<close>, and a run that throws is \<open>None\<close>.
\<close>

text \<open>\<^verbatim>\<open>calculateGCPriority(p, actualDays[p.id], targetDays[p.id])\<close>.\<close>

definition gcPriorityOf :: "counterMap \<Rightarrow> counterMap \<Rightarrow> person \<Rightarrow> rat option" where
  "gcPriorityOf actualDays tgt p =
     (case actualDays (pid p) of None \<Rightarrow> None
      | Some a \<Rightarrow> (case tgt (pid p) of None \<Rightarrow> None
                   | Some t \<Rightarrow> Some (calculateGCPriority p a t)))"

text \<open>The roster persons whose cell in the row is REMOTE, in roster order.\<close>

definition stillRemote :: "person list \<Rightarrow> row \<Rightarrow> person list" where
  "stillRemote people r = filter (\<lambda>p. map_of r (pid p) = Some REMOTE) people"

text \<open>
  \<^verbatim>\<open>Array.prototype.sort\<close> is stable; with the comparator \<^verbatim>\<open>b.priority - a.priority\<close>
  it sorts by descending priority, which is \<^const>\<open>sort_key\<close> on the negated priority.
\<close>

definition gcCandidates :: "person list \<Rightarrow> row \<Rightarrow> counterMap \<Rightarrow> counterMap \<Rightarrow> (person \<times> rat) list option" where
  "gcCandidates people r actualDays tgt =
     map_option (sort_key (\<lambda>c. - snd c))
       (those (map (\<lambda>p. map_option (Pair p) (gcPriorityOf actualDays tgt p)) (stillRemote people r)))"

text \<open>\<^verbatim>\<open>actualDays[id].gc += 1\<close> and its siblings.\<close>

definition bump_gc :: "counterMap \<Rightarrow> string \<Rightarrow> counterMap option" where
  "bump_gc actualDays i =
     (case actualDays i of None \<Rightarrow> None | Some a \<Rightarrow> Some (actualDays(i \<mapsto> a\<lparr>gc := gc a + 1\<rparr>)))"

definition bump_issy :: "counterMap \<Rightarrow> string \<Rightarrow> counterMap option" where
  "bump_issy actualDays i =
     (case actualDays i of None \<Rightarrow> None | Some a \<Rightarrow> Some (actualDays(i \<mapsto> a\<lparr>issy := issy a + 1\<rparr>)))"

definition bump_remote :: "counterMap \<Rightarrow> string \<Rightarrow> counterMap option" where
  "bump_remote actualDays i =
     (case actualDays i of None \<Rightarrow> None | Some a \<Rightarrow> Some (actualDays(i \<mapsto> a\<lparr>remote := remote a + 1\<rparr>)))"

text \<open>Step 1 (lines 135 to 141): the loop over the sorted candidates, with its \<^verbatim>\<open>break\<close>.\<close>

fun fillGC :: "(person \<times> rat) list \<Rightarrow> row \<Rightarrow> counterMap \<Rightarrow> (row \<times> counterMap) option" where
  "fillGC [] r actualDays = Some (r, actualDays)"
| "fillGC (candidate # rest) r actualDays =
     (if dayUsage r GC \<ge> capacity_GC then Some (r, actualDays)
      else if snd candidate > 0 then
        (case bump_gc actualDays (pid (fst candidate)) of None \<Rightarrow> None
         | Some actualDays' \<Rightarrow> fillGC rest (AList.update (pid (fst candidate)) GC r) actualDays')
      else fillGC rest r actualDays)"

text \<open>Step 1.5 (lines 143 to 157): the loop body for the persons pulled to reach three.\<close>

fun pullGC :: "person list \<Rightarrow> row \<Rightarrow> counterMap \<Rightarrow> (row \<times> counterMap) option" where
  "pullGC [] r actualDays = Some (r, actualDays)"
| "pullGC (p # rest) r actualDays =
     (case bump_gc actualDays (pid p) of None \<Rightarrow> None
      | Some actualDays' \<Rightarrow> pullGC rest (AList.update (pid p) GC r) actualDays')"

definition availableForGC :: "person list \<Rightarrow> row \<Rightarrow> counterMap \<Rightarrow> counterMap \<Rightarrow> person list option" where
  "availableForGC people r actualDays tgt = map_option (map fst) (gcCandidates people r actualDays tgt)"

definition floorGC :: "person list \<Rightarrow> counterMap \<Rightarrow> row \<Rightarrow> counterMap \<Rightarrow> (row \<times> counterMap) option" where
  "floorGC people tgt r actualDays =
     (let currentGCCount = dayUsage r GC in
      if currentGCCount > 0 \<and> currentGCCount < 3 then
        (let additionalNeeded = 3 - currentGCCount in
         case availableForGC people r actualDays tgt of None \<Rightarrow> None
         | Some avail \<Rightarrow> pullGC (take (min additionalNeeded (length avail)) avail) r actualDays)
      else Some (r, actualDays))"

text \<open>Step 2 (lines 159 to 173): ISSY or REMOTE for everybody who is still open.\<close>

fun routeRest :: "person list \<Rightarrow> counterMap \<Rightarrow> row \<Rightarrow> counterMap \<Rightarrow> (row \<times> counterMap) option" where
  "routeRest [] tgt r actualDays = Some (r, actualDays)"
| "routeRest (p # rest) tgt r actualDays =
     (case actualDays (pid p) of None \<Rightarrow> None
      | Some a \<Rightarrow>
         (case tgt (pid p) of None \<Rightarrow> None
          | Some t \<Rightarrow>
             (let issyPriority = calculateIssyPriority p a t;
                  remotePriority = calculateRemotePriority p a t
              in if issyPriority > remotePriority \<and> dayUsage r ISSY < capacity_ISSY
                 then routeRest rest tgt (AList.update (pid p) ISSY r)
                        (actualDays(pid p \<mapsto> a\<lparr>issy := issy a + 1\<rparr>))
                 else routeRest rest tgt (AList.update (pid p) REMOTE r)
                        (actualDays(pid p \<mapsto> a\<lparr>remote := remote a + 1\<rparr>)))))"

text \<open>Step 3 (lines 175 to 182): a lone person at ISSY goes to REMOTE.\<close>

definition loneIssy :: "row \<Rightarrow> counterMap \<Rightarrow> (row \<times> counterMap) option" where
  "loneIssy r actualDays =
     (case filter (\<lambda>(k, s). s = ISSY) r of
        [(lonePersonId, s)] \<Rightarrow>
          (case actualDays lonePersonId of None \<Rightarrow> None
           | Some a \<Rightarrow> Some (AList.update lonePersonId REMOTE r,
                             actualDays(lonePersonId \<mapsto> a\<lparr>issy := issy a - 1, remote := remote a + 1\<rparr>)))
      | _ \<Rightarrow> Some (r, actualDays))"

text \<open>The body of the loop over the days (lines 126 to 182), on the row of the day.\<close>

definition processDay :: "person list \<Rightarrow> counterMap \<Rightarrow> row \<Rightarrow> counterMap \<Rightarrow> (row \<times> counterMap) option" where
  "processDay people tgt r actualDays =
     do {
       cands \<leftarrow> gcCandidates people r actualDays tgt;
       (r1, a1) \<leftarrow> fillGC cands r actualDays;
       (r2, a2) \<leftarrow> floorGC people tgt r1 a1;
       (r3, a3) \<leftarrow> routeRest (stillRemote people r2) tgt r2 a2;
       loneIssy r3 a3
     }"

text \<open>The loop over the days (lines 122 to 183); an all-hands day is skipped.\<close>

fun dayLoop :: "iso list \<Rightarrow> iso list \<Rightarrow> person list \<Rightarrow> counterMap \<Rightarrow> plan \<Rightarrow> counterMap
    \<Rightarrow> (plan \<times> counterMap) option" where
  "dayLoop [] bubbleLuxDates people tgt plan actualDays = Some (plan, actualDays)"
| "dayLoop (d # rest) bubbleLuxDates people tgt plan actualDays =
     (if d \<in> set bubbleLuxDates then dayLoop rest bubbleLuxDates people tgt plan actualDays
      else case map_of plan d of None \<Rightarrow> None
           | Some r \<Rightarrow>
              (case processDay people tgt r actualDays of None \<Rightarrow> None
               | Some (r', actualDays') \<Rightarrow>
                   dayLoop rest bubbleLuxDates people tgt (AList.update d r' plan) actualDays'))"

text \<open>The plan before the loop over the days, and the counters before it.\<close>

definition overridePlan :: "iso list \<Rightarrow> iso list \<Rightarrow> oooData \<Rightarrow> person list \<Rightarrow> plan" where
  "overridePlan monthDays bubbleLuxDates oooData people =
     applyBubbleLux (applyOOO (initPlan monthDays people) oooData) bubbleLuxDates people"

record schedule =
  plan_of :: plan
  days_of :: "iso list"

text \<open>
  \<^verbatim>\<open>generateSchedule({ monthStart, bubbleLuxDates, oooData, people })\<close>, with the
  business days of the month of \<^verbatim>\<open>monthStart\<close> in place of \<^verbatim>\<open>monthStart\<close>.
\<close>

definition generateSchedule :: "iso list \<Rightarrow> iso list \<Rightarrow> oooData \<Rightarrow> person list \<Rightarrow> schedule option" where
  "generateSchedule monthDays bubbleLuxDates oooData people =
     map_option (\<lambda>(plan, actualDays). \<lparr>plan_of = plan, days_of = monthDays\<rparr>)
       (dayLoop monthDays bubbleLuxDates people (targetDays monthDays oooData people)
          (overridePlan monthDays bubbleLuxDates oooData people)
          (initActualDays bubbleLuxDates oooData people))"

text \<open>The roster \<^verbatim>\<open>PEOPLE\<close> of the source; \<open>CHR 0xE9\<close> is the letter e with acute accent.\<close>

definition mk_person :: "string \<Rightarrow> string \<Rightarrow> int \<Rightarrow> int \<Rightarrow> int \<Rightarrow> person" where
  "mk_person i n g s r = \<lparr>pid = i, name = n, prefs = \<lparr>gcShare = g, issyShare = s, remoteShare = r\<rparr>\<rparr>"

definition PEOPLE :: "person list" where
  "PEOPLE =
    [mk_person ''bertrand'' ''Bertrand'' 70 10 20,
     mk_person ''florence'' ''Florence'' 60 10 30,
     mk_person ''nicolas'' ''Nicolas'' 55 15 30,
     mk_person ''amelie'' (''Am'' @ [CHR 0xE9] @ ''lie'') 5 5 90,
     mk_person ''karine'' ''Karine'' 90 5 5,
     mk_person ''lea'' (''L'' @ [CHR 0xE9] @ ''a'') 55 15 30,
     mk_person ''dounia'' ''Dounia'' 55 15 30,
     mk_person ''laurent'' ''Laurent'' 45 45 10,
     mk_person ''eva'' ''Eva'' 20 20 60,
     mk_person ''herve'' (''Herv'' @ [CHR 0xE9]) 35 35 30,
     mk_person ''mathilde'' ''Mathilde'' 35 35 30,
     mk_person ''rubie'' ''Rubie'' 55 15 30]"

text \<open>The business days of September 2025, as \<^verbatim>\<open>monthDays.map(yyyyMMdd)\<close> lists them.\<close>

definition SEPT_2025 :: "iso list" where
  "SEPT_2025 =
    [''2025-09-01'', ''2025-09-02'', ''2025-09-03'', ''2025-09-04'', ''2025-09-05'',
     ''2025-09-08'', ''2025-09-09'', ''2025-09-10'', ''2025-09-11'', ''2025-09-12'',
     ''2025-09-15'', ''2025-09-16'', ''2025-09-17'', ''2025-09-18'', ''2025-09-19'',
     ''2025-09-22'', ''2025-09-23'', ''2025-09-24'', ''2025-09-25'', ''2025-09-26'',
     ''2025-09-29'', ''2025-09-30'']"

section \<open>Text export and import\<close>

text \<open>
  JavaScript strings are lists of code units; the model has the code units below 256. The
  operations of \<^verbatim>\<open>String.prototype\<close> that \<^verbatim>\<open>generateCSV\<close> and \<^verbatim>\<open>parseCSV\<close> use:
  \<^verbatim>\<open>s.split(c)\<close> for a separator of one character, \<^verbatim>\<open>xs.join(sep)\<close>, \<^verbatim>\<open>s.trim()\<close>
  (the white space below 256) and \<^verbatim>\<open>s.includes(t)\<close>.
\<close>

fun split_on :: "char \<Rightarrow> string \<Rightarrow> string list" where
  "split_on c [] = [[]]"
| "split_on c (x # xs) =
     (if x = c then [] # split_on c xs
      else (case split_on c xs of [] \<Rightarrow> [[x]] | w # ws \<Rightarrow> (x # w) # ws))"

fun join :: "string \<Rightarrow> string list \<Rightarrow> string" where
  "join sep [] = []"
| "join sep [x] = x"
| "join sep (x # y # ys) = x @ sep @ join sep (y # ys)"

definition is_space :: "char \<Rightarrow> bool" where
  "is_space c \<longleftrightarrow> c \<in> {CHR 0x09, CHR 0x0A, CHR 0x0B, CHR 0x0C, CHR 0x0D, CHR 0x20, CHR 0xA0}"

definition trim :: "string \<Rightarrow> string" where
  "trim s = rev (dropWhile is_space (rev (dropWhile is_space s)))"

definition str_includes :: "string \<Rightarrow> string \<Rightarrow> bool" where
  "str_includes s t \<longleftrightarrow> sublist t s"

text \<open>
  The fields of the persisted state that export and import touch. \<^verbatim>\<open>state.bubbleLux\<close>
  maps a month to its all-hands dates.
\<close>

record app_state =
  monthISO :: iso
  bubbleLux :: "(iso \<times> iso list) list"
  plan_st :: plan
  days_st :: "iso list"

text \<open>\<^verbatim>\<open>state.plan[iso]?.[person.id] || 'REMOTE'\<close> and the label of a tag (lines 672 to 675).\<close>

definition assignment :: "plan \<Rightarrow> iso \<Rightarrow> string \<Rightarrow> site" where
  "assignment pl d personId = (case cell pl d personId of None \<Rightarrow> REMOTE | Some s \<Rightarrow> s)"

definition siteLabel :: "site \<Rightarrow> string" where
  "siteLabel a = (if a = GC then ''Grand-Cerf'' else if a = ISSY then ''Issy'' else ''Remote'')"

text \<open>
  \<^verbatim>\<open>generateCSV(state, businessDays, people)\<close>. The two renderings of a date by the
  date library, \<^verbatim>\<open>format(d, 'EEE d MMM')\<close> for the header and
  \<^verbatim>\<open>format(date, 'EEEE d MMMM yyyy')\<close> for the all-hands section, are the parameters
  \<open>label\<close> and \<open>longLabel\<close>.
\<close>

definition csvRow :: "plan \<Rightarrow> iso list \<Rightarrow> person \<Rightarrow> string" where
  "csvRow pl businessDays person =
     join '','' (name person # map (\<lambda>day. siteLabel (assignment pl day (pid person))) businessDays)"

definition generateCSV :: "(iso \<Rightarrow> string) \<Rightarrow> (iso \<Rightarrow> string) \<Rightarrow> app_state \<Rightarrow> iso list \<Rightarrow> person list \<Rightarrow> string" where
  "generateCSV label longLabel state businessDays people =
     (let header = join '','' (''Person'' # map label businessDays);
          rows = map (csvRow (plan_st state) businessDays) people;
          monthBubbleLux = (case map_of (bubbleLux state) (monthISO state) of None \<Rightarrow> [] | Some ds \<Rightarrow> ds);
          section = (if length monthBubbleLux > 0
                     then [[], ''BubbleLux Days:''] @ map longLabel monthBubbleLux else [])
      in join [CHR 0x0A] (header # rows @ section))"

text \<open>
  \<^verbatim>\<open>parseCSV(csvText, businessDays, people)\<close>. Its only \<^verbatim>\<open>throw\<close> is the value
  \<open>Inl Invalid_CSV_format\<close>. \<open>cellText\<close> is \<^verbatim>\<open>parts[dayIndex + 1]?.trim() || 'Remote'\<close>,
  \<open>importRow\<close> the loop over the business days for one person, \<open>parseRows\<close> the loop over
  the lines after the first one, with its \<^verbatim>\<open>break\<close> and its two \<^verbatim>\<open>continue\<close>.
\<close>

datatype csv_error = Invalid_CSV_format

record imported =
  imp_plan :: plan
  imp_bubbleLux :: "(iso \<times> iso list) list"
  imp_days :: "iso list"

definition cellText :: "string list \<Rightarrow> nat \<Rightarrow> string" where
  "cellText parts j =
     (if j < length parts then (if trim (parts ! j) = [] then ''Remote'' else trim (parts ! j))
      else ''Remote'')"

definition siteOfLabel :: "string \<Rightarrow> site" where
  "siteOfLabel a = (if a = ''Grand-Cerf'' then GC else if a = ''Issy'' then ISSY else REMOTE)"

definition importCell :: "person \<Rightarrow> string list \<Rightarrow> nat \<times> iso \<Rightarrow> plan \<Rightarrow> plan" where
  "importCell person parts = (\<lambda>(dayIndex, day) pl.
     plan_set (if map_of pl day = None then AList.update day [] pl else pl) day (pid person)
       (siteOfLabel (cellText parts (dayIndex + 1))))"

definition importRow :: "person \<Rightarrow> string list \<Rightarrow> iso list \<Rightarrow> plan \<Rightarrow> plan" where
  "importRow person parts businessDays pl =
     fold (importCell person parts) (enumerate 0 businessDays) pl"

fun parseRows :: "string list \<Rightarrow> iso list \<Rightarrow> person list \<Rightarrow> plan \<Rightarrow> plan" where
  "parseRows [] businessDays people pl = pl"
| "parseRows (line # rest) businessDays people pl =
     (if str_includes line ''BubbleLux'' \<or> \<not> str_includes line '','' then pl
      else (let parts = split_on CHR '','' line in
            if length parts < 2 then parseRows rest businessDays people pl
            else (case find (\<lambda>p. name p = trim (hd parts)) people of
                    None \<Rightarrow> parseRows rest businessDays people pl
                  | Some person \<Rightarrow>
                      parseRows rest businessDays people (importRow person parts businessDays pl))))"

definition nonBlankLines :: "string \<Rightarrow> string list" where
  "nonBlankLines csvText = filter (\<lambda>line. trim line \<noteq> []) (split_on (CHR 0x0A) csvText)"

definition parseCSV :: "string \<Rightarrow> iso list \<Rightarrow> person list \<Rightarrow> csv_error + imported" where
  "parseCSV csvText businessDays people =
     (let lines = nonBlankLines csvText in
      if length lines < 2 then Inl Invalid_CSV_format
      else Inr \<lparr>imp_plan = parseRows (tl lines) businessDays people [],
                imp_bubbleLux = [], imp_days = businessDays\<rparr>)"

text \<open>
  The state change of \<^verbatim>\<open>importCSV\<close> once the file is read: \<^verbatim>\<open>{ ...s, ...imported }\<close>
  when \<^verbatim>\<open>parseCSV\<close> returns, the state as it was and an alert when it throws. The second
  component tells whether the alert is shown.
\<close>

definition importCSV :: "string \<Rightarrow> iso list \<Rightarrow> person list \<Rightarrow> app_state \<Rightarrow> app_state \<times> bool" where
  "importCSV csvText businessDays people s =
     (case parseCSV csvText businessDays people of
        Inl e \<Rightarrow> (s, True)
      | Inr imp \<Rightarrow> (s\<lparr>plan_st := imp_plan imp, bubbleLux := imp_bubbleLux imp, days_st := imp_days imp\<rparr>,
                    False))"

section \<open>Notions used in the statements and in the proofs\<close>

text \<open>The ids of the roster.\<close>

definition roster :: "person list \<Rightarrow> string set" where
  "roster people = pid ` set people"

text \<open>
  Two rows have the same shape when they have the same keys in the same order and the
  same cells on OOO.
\<close>

definition same_shape :: "row \<Rightarrow> row \<Rightarrow> bool" where
  "same_shape r r' \<longleftrightarrow>
     map fst r' = map fst r \<and> (\<forall>i. map_of r' i = Some OOO \<longleftrightarrow> map_of r i = Some OOO)"

text \<open>Every row of a plan has distinct keys, as the rows of a JavaScript object have.\<close>

definition rows_distinct :: "plan \<Rightarrow> bool" where
  "rows_distinct pl \<longleftrightarrow> (\<forall>d r. map_of pl d = Some r \<longrightarrow> distinct (map fst r))"

text \<open>Some entry of \<^verbatim>\<open>oooData\<close> for the id lists the day.\<close>

definition absent_on :: "oooData \<Rightarrow> string \<Rightarrow> iso \<Rightarrow> bool" where
  "absent_on oooData i d \<longleftrightarrow> (\<exists>dates. (i, dates) \<in> set oooData \<and> d \<in> set dates)"

text \<open>A cell of the row that exists and is not OOO.\<close>

definition open_in :: "row \<Rightarrow> string \<Rightarrow> bool" where
  "open_in r i \<longleftrightarrow> (\<exists>s. map_of r i = Some s \<and> s \<noteq> OOO)"

text \<open>
  Two plans have the same shape when they have rows for the same days and the rows of a
  day have the same shape.
\<close>

definition plan_shape :: "plan \<Rightarrow> plan \<Rightarrow> bool" where
  "plan_shape pl pl' \<longleftrightarrow> (\<forall>d. rel_option same_shape (map_of pl d) (map_of pl' d))"

text \<open>In every row, a cell that is not OOO belongs to a roster person.\<close>

definition rows_ok :: "person list \<Rightarrow> plan \<Rightarrow> bool" where
  "rows_ok people pl \<longleftrightarrow> (\<forall>d r i. map_of pl d = Some r \<and> open_in r i \<longrightarrow> i \<in> roster people)"

text \<open>
  An absence map for the roster \<^verbatim>\<open>PEOPLE\<close>: everybody but Bertrand and Florence is absent
  on 1 September 2025.
\<close>

definition TEN_ABSENT :: oooData where
  "TEN_ABSENT =
    [(''nicolas'', [''2025-09-01'']), (''amelie'', [''2025-09-01'']),
     (''karine'', [''2025-09-01'']), (''lea'', [''2025-09-01'']),
     (''dounia'', [''2025-09-01'']), (''laurent'', [''2025-09-01'']),
     (''eva'', [''2025-09-01'']), (''herve'', [''2025-09-01'']),
     (''mathilde'', [''2025-09-01'']), (''rubie'', [''2025-09-01''])]"

text \<open>
  The first two entries of \<^verbatim>\<open>PEOPLE\<close>, and the row of 1 September 2025 for the absence
  map \<open>TEN_ABSENT\<close>, before and after the greedy phase.
\<close>

definition BERTRAND :: person where
  "BERTRAND = mk_person ''bertrand'' ''Bertrand'' 70 10 20"

definition FLORENCE :: person where
  "FLORENCE = mk_person ''florence'' ''Florence'' 60 10 30"

definition TWO_OPEN :: row where
  "TWO_OPEN =
    [(''bertrand'', REMOTE), (''florence'', REMOTE), (''nicolas'', OOO), (''amelie'', OOO),
     (''karine'', OOO), (''lea'', OOO), (''dounia'', OOO), (''laurent'', OOO), (''eva'', OOO),
     (''herve'', OOO), (''mathilde'', OOO), (''rubie'', OOO)]"

definition TWO_AT_GC :: row where
  "TWO_AT_GC =
    [(''bertrand'', GC), (''florence'', GC), (''nicolas'', OOO), (''amelie'', OOO),
     (''karine'', OOO), (''lea'', OOO), (''dounia'', OOO), (''laurent'', OOO), (''eva'', OOO),
     (''herve'', OOO), (''mathilde'', OOO), (''rubie'', OOO)]"

text \<open>
  An absence map with one absence of Herve, an all-hands date outside September 2025,
  and the row of 1 September 2025 at three moments of the greedy phase: before it, after
  step 1, and at the end without and with the outside date.
\<close>

definition HERVE_OFF :: oooData where
  "HERVE_OFF = [(''herve'', [''2025-09-02''])]"

definition OUTSIDE :: iso where
  "OUTSIDE = ''2025-10-01''"

definition ALL_OPEN :: row where
  "ALL_OPEN =
    [(''bertrand'', REMOTE), (''florence'', REMOTE), (''nicolas'', REMOTE), (''amelie'', REMOTE),
     (''karine'', REMOTE), (''lea'', REMOTE), (''dounia'', REMOTE), (''laurent'', REMOTE),
     (''eva'', REMOTE), (''herve'', REMOTE), (''mathilde'', REMOTE), (''rubie'', REMOTE)]"

definition FIVE_AT_GC :: row where
  "FIVE_AT_GC =
    [(''bertrand'', GC), (''florence'', GC), (''nicolas'', GC), (''amelie'', REMOTE),
     (''karine'', GC), (''lea'', GC), (''dounia'', REMOTE), (''laurent'', REMOTE),
     (''eva'', REMOTE), (''herve'', REMOTE), (''mathilde'', REMOTE), (''rubie'', REMOTE)]"

definition DAY_WITHOUT :: row where
  "DAY_WITHOUT =
    [(''bertrand'', GC), (''florence'', GC), (''nicolas'', GC), (''amelie'', REMOTE),
     (''karine'', GC), (''lea'', GC), (''dounia'', REMOTE), (''laurent'', ISSY),
     (''eva'', REMOTE), (''herve'', ISSY), (''mathilde'', ISSY), (''rubie'', REMOTE)]"

definition DAY_WITH :: row where
  "DAY_WITH =
    [(''bertrand'', GC), (''florence'', GC), (''nicolas'', GC), (''amelie'', REMOTE),
     (''karine'', GC), (''lea'', GC), (''dounia'', REMOTE), (''laurent'', ISSY),
     (''eva'', REMOTE), (''herve'', REMOTE), (''mathilde'', ISSY), (''rubie'', REMOTE)]"

text \<open>The targets of the roster \<^verbatim>\<open>PEOPLE\<close> in September 2025 when Herve is absent one day.\<close>

definition HERVE_OFF_TARGETS :: "(string \<times> counters) list" where
  "HERVE_OFF_TARGETS =
    [(''bertrand'', \<lparr>gc = 15, issy = 2, remote = 5\<rparr>),
     (''florence'', \<lparr>gc = 13, issy = 2, remote = 7\<rparr>),
     (''nicolas'', \<lparr>gc = 12, issy = 3, remote = 7\<rparr>),
     (''amelie'', \<lparr>gc = 1, issy = 1, remote = 20\<rparr>),
     (''karine'', \<lparr>gc = 20, issy = 1, remote = 1\<rparr>),
     (''lea'', \<lparr>gc = 12, issy = 3, remote = 7\<rparr>),
     (''dounia'', \<lparr>gc = 12, issy = 3, remote = 7\<rparr>),
     (''laurent'', \<lparr>gc = 10, issy = 10, remote = 2\<rparr>),
     (''eva'', \<lparr>gc = 4, issy = 4, remote = 14\<rparr>),
     (''herve'', \<lparr>gc = 7, issy = 7, remote = 7\<rparr>),
     (''mathilde'', \<lparr>gc = 8, issy = 8, remote = 6\<rparr>),
     (''rubie'', \<lparr>gc = 12, issy = 3, remote = 7\<rparr>)]"

text \<open>The fifth entry of \<^verbatim>\<open>PEOPLE\<close>.\<close>

definition KARINE :: person where
  "KARINE = mk_person ''karine'' ''Karine'' 90 5 5"

text \<open>
  For a roster of the one person \<open>p\<close>: the person is open in the row and has a positive GC
  priority with the counters \<open>c\<close> and the targets \<open>t\<close>.
\<close>

definition solo_gc :: "person \<Rightarrow> counters \<Rightarrow> counters \<Rightarrow> row \<Rightarrow> bool" where
  "solo_gc p c t r \<longleftrightarrow> map_of r (pid p) = Some REMOTE \<and> calculateGCPriority p c t > 0"

text \<open>
  Three texts for the import: a header alone; a text without header whose second line
  names nobody of the roster and whose third line has one column; and a text whose third
  line has one column after a good line for Bertrand. A state with a table of one row.
\<close>

definition HEADER_ONLY :: string where
  "HEADER_ONLY = ''Person,Mon 1 Sep''"

definition MALFORMED :: string where
  "MALFORMED = ''Bertrand,Issy'' @ [CHR 0x0A] @ ''Nobody,Issy'' @ [CHR 0x0A] @ ''Florence''"

definition CUT_SHORT :: string where
  "CUT_SHORT = ''Person,Mon 1 Sep'' @ [CHR 0x0A] @ ''Bertrand,Issy'' @ [CHR 0x0A] @ ''Florence''"

definition ONE_ROW_STATE :: app_state where
  "ONE_ROW_STATE =
     \<lparr>monthISO = ''2025-09-01'', bubbleLux = [(''2025-09-01'', [''2025-09-03''])],
      plan_st = [(''2025-09-01'', TWO_AT_GC)], days_st = SEPT_2025\<rparr>"

text \<open>
  What the export keeps of a tag: OOO is written with the label of REMOTE. A name that the
  text format can carry: no comma, no line feed, no white space at its ends, and not
  containing the word that starts the all-hands section.
\<close>

definition collapse :: "site \<Rightarrow> site" where
  "collapse a = (if a = OOO then REMOTE else a)"

definition csv_name :: "string \<Rightarrow> bool" where
  "csv_name n \<longleftrightarrow>
     CHR '','' \<notin> set n \<and> CHR 0x0A \<notin> set n \<and> trim n = n \<and> \<not> str_includes n ''BubbleLux''"

section \<open>Maps built by a loop over the roster\<close>

lemma fold_upd_notin:
  "i \<notin> pid ` set ps \<Longrightarrow> fold (\<lambda>p m. m(pid p \<mapsto> f p)) ps m i = m i"
  by (induction ps arbitrary: m) auto

lemma fold_upd_in:
  "distinct (map pid ps) \<Longrightarrow> p \<in> set ps \<Longrightarrow>
   fold (\<lambda>p m. m(pid p \<mapsto> f p)) ps m (pid p) = Some (f p)"
proof (induction ps arbitrary: m)
  case Nil
  then show ?case by simp
next
  case (Cons q ps)
  show ?case
  proof (cases "p = q")
    case True
    with Cons.prems have "pid q \<notin> pid ` set ps" by auto
    then have "fold (\<lambda>p m. m(pid p \<mapsto> f p)) ps (m(pid q \<mapsto> f q)) (pid q) = (m(pid q \<mapsto> f q)) (pid q)"
      by (rule fold_upd_notin)
    also have "\<dots> = Some (f q)" by simp
    finally show ?thesis using True by (simp del: fun_upd_apply)
  next
    case False
    with Cons show ?thesis by simp
  qed
qed

lemma fold_upd_dom:
  "dom (fold (\<lambda>p m. m(pid p \<mapsto> f p)) ps m) = dom m \<union> pid ` set ps"
  by (induction ps arbitrary: m) auto


lemma floor_rat_numeral_div:
  "\<lfloor>(numeral a :: rat) / numeral b\<rfloor> = numeral a div numeral b"
  using floor_divide_of_int_eq [of "numeral a" "numeral b", where ?'a = rat] by simp

section \<open>Rows\<close>

lemma update_same_keys:
  "map_of r i = Some s \<Longrightarrow> map fst (AList.update i v r) = map fst r"
  by (induction r) (auto split: if_splits)

lemma same_shape_refl: "same_shape r r"
  by (simp add: same_shape_def)

lemma same_shape_trans: "same_shape r r1 \<Longrightarrow> same_shape r1 r2 \<Longrightarrow> same_shape r r2"
  by (simp add: same_shape_def)

lemma same_shape_update:
  "map_of r i = Some s \<Longrightarrow> s \<noteq> OOO \<Longrightarrow> v \<noteq> OOO \<Longrightarrow> same_shape r (AList.update i v r)"
  by (auto simp add: same_shape_def update_same_keys update_conv')

lemma same_shape_keys: "same_shape r r' \<Longrightarrow> map fst r' = map fst r"
  by (simp add: same_shape_def)

lemma same_shape_dom: "same_shape r r' \<Longrightarrow> (map_of r' i = None) = (map_of r i = None)"
  by (simp add: same_shape_def map_of_eq_None_iff) (metis list.set_map)

lemma same_shape_OOO: "same_shape r r' \<Longrightarrow> (map_of r' i = Some OOO) = (map_of r i = Some OOO)"
  by (simp add: same_shape_def)

lemma tally_fold:
  "fold (\<lambda>s acc. acc(s := acc s + 1)) xs acc t = acc t + length (filter (\<lambda>x. x = t) xs)"
  by (induction xs arbitrary: acc) auto

lemma dayUsage_filter: "dayUsage r s = length (filter (\<lambda>kv. snd kv = s) r)"
  unfolding dayUsage_def by (subst tally_fold) (simp add: filter_map comp_def)

lemma dayUsage_Nil [simp]: "dayUsage [] s = 0"
  by (simp add: dayUsage_filter)

lemma dayUsage_Cons: "dayUsage (kv # r) s = (if snd kv = s then 1 else 0) + dayUsage r s"
  by (simp add: dayUsage_filter)

lemma dayUsage_pos: "map_of r i = Some s \<Longrightarrow> 0 < dayUsage r s"
  by (induction r) (auto simp add: dayUsage_Cons split: if_splits)

lemma dayUsage_update_new:
  "map_of r i = Some s0 \<Longrightarrow> s0 \<noteq> v \<Longrightarrow> dayUsage (AList.update i v r) v = dayUsage r v + 1"
  by (induction r) (auto simp add: dayUsage_Cons split: if_splits)

lemma dayUsage_update_old:
  "map_of r i = Some s0 \<Longrightarrow> s0 \<noteq> v \<Longrightarrow> dayUsage (AList.update i v r) s0 + 1 = dayUsage r s0"
  by (induction r) (auto simp add: dayUsage_Cons split: if_splits)

lemma dayUsage_update_other:
  "map_of r i = Some s0 \<Longrightarrow> s \<noteq> s0 \<Longrightarrow> s \<noteq> v \<Longrightarrow> dayUsage (AList.update i v r) s = dayUsage r s"
  by (induction r) (auto simp add: dayUsage_Cons split: if_splits)

lemma dayUsage_update_same:
  "map_of r i = Some v \<Longrightarrow> AList.update i v r = r"
  by (rule update_triv)

lemma dayUsage_zero_iff: "dayUsage r s = 0 \<longleftrightarrow> s \<notin> snd ` set r"
  by (induction r) (auto simp add: dayUsage_Cons)

lemma update_values: "snd ` set (AList.update i v r) \<subseteq> insert v (snd ` set r)"
  by (induction r) auto

section \<open>The plan before the loop over the days\<close>

lemma fold_update_const:
  "map_of (fold (\<lambda>k. AList.update k v) ks acc) k' = (if k' \<in> set ks then Some v else map_of acc k')"
  by (induction ks arbitrary: acc) (auto simp add: update_conv')

lemma fold_update_distinct:
  "distinct (map fst acc) \<Longrightarrow> distinct (map fst (fold (\<lambda>k. AList.update k v) ks acc))"
  by (induction ks arbitrary: acc) (auto simp add: distinct_update)

lemma fromEntries_const:
  "fromEntries (map (\<lambda>p. (pid p, v)) people) = fold (\<lambda>k. AList.update k v) (map pid people) []"
  by (simp add: fromEntries_def fold_map comp_def)

lemma map_of_initPlan:
  "map_of (initPlan monthDays people) d =
     (if d \<in> set monthDays then Some (fromEntries (map (\<lambda>p. (pid p, REMOTE)) people)) else None)"
  by (simp add: initPlan_def fold_update_const)

lemma cell_initPlan:
  "cell (initPlan monthDays people) d i =
     (if d \<in> set monthDays \<and> i \<in> roster people then Some REMOTE else None)"
  by (simp add: cell_def map_of_initPlan fromEntries_const fold_update_const roster_def)

lemma rows_distinct_initPlan: "rows_distinct (initPlan monthDays people)"
  by (simp add: rows_distinct_def map_of_initPlan fromEntries_const fold_update_distinct)

lemma map_of_plan_set:
  "map_of (plan_set pl d i v) d' =
     (if d' = d then map_option (AList.update i v) (map_of pl d) else map_of pl d')"
  by (auto simp add: plan_set_def map_of_map_entry split: option.splits)

lemma plan_set_None: "(map_of (plan_set pl d i v) d' = None) = (map_of pl d' = None)"
  by (simp add: map_of_plan_set)

lemma cell_plan_set:
  "cell (plan_set pl d i v) d' i' =
     (if d' = d \<and> i' = i \<and> map_of pl d \<noteq> None then Some v else cell pl d' i')"
  by (auto simp add: cell_def map_of_plan_set update_conv' split: option.splits)

lemma rows_distinct_plan_set: "rows_distinct pl \<Longrightarrow> rows_distinct (plan_set pl d i v)"
  by (auto simp add: rows_distinct_def map_of_plan_set distinct_update split: if_splits)

lemma markOOO_None: "(map_of (markOOO i d pl) d' = None) = (map_of pl d' = None)"
  by (simp add: markOOO_def plan_set_None)

lemma cell_markOOO:
  "cell (markOOO i d pl) d' i' =
     (if d' = d \<and> i' = i \<and> map_of pl d \<noteq> None then Some OOO else cell pl d' i')"
  by (auto simp add: markOOO_def cell_plan_set)

lemma rows_distinct_markOOO: "rows_distinct pl \<Longrightarrow> rows_distinct (markOOO i d pl)"
  by (simp add: markOOO_def rows_distinct_plan_set)

lemma fold_markOOO_None: "(map_of (fold (markOOO i) dates pl) d' = None) = (map_of pl d' = None)"
  by (induction dates arbitrary: pl) (simp_all add: markOOO_None)

lemma cell_fold_markOOO:
  "cell (fold (markOOO i) dates pl) d' i' =
     (if map_of pl d' \<noteq> None \<and> i' = i \<and> d' \<in> set dates then Some OOO else cell pl d' i')"
proof (induction dates arbitrary: pl)
  case Nil
  then show ?case by simp
next
  case (Cons d dates)
  have "cell (fold (markOOO i) (d # dates) pl) d' i' = cell (fold (markOOO i) dates (markOOO i d pl)) d' i'"
    by simp
  also have "\<dots> = (if map_of (markOOO i d pl) d' \<noteq> None \<and> i' = i \<and> d' \<in> set dates then Some OOO
                    else cell (markOOO i d pl) d' i')"
    by (rule Cons.IH)
  also have "\<dots> = (if map_of pl d' \<noteq> None \<and> i' = i \<and> d' \<in> set (d # dates) then Some OOO else cell pl d' i')"
    by (simp only: markOOO_None cell_markOOO) auto
  finally show ?case .
qed

lemma rows_distinct_fold_markOOO: "rows_distinct pl \<Longrightarrow> rows_distinct (fold (markOOO i) dates pl)"
  by (induction dates arbitrary: pl) (simp_all add: rows_distinct_markOOO)

lemma applyOOO_Cons:
  "applyOOO pl ((i, dates) # oooData) = applyOOO (fold (markOOO i) dates pl) oooData"
  by (simp add: applyOOO_def)

lemma applyOOO_Nil: "applyOOO pl [] = pl"
  by (simp add: applyOOO_def)

lemma applyOOO_None: "(map_of (applyOOO pl oooData) d = None) = (map_of pl d = None)"
proof (induction oooData arbitrary: pl)
  case Nil
  then show ?case by (simp add: applyOOO_Nil)
next
  case (Cons e oooData)
  obtain j dates where e: "e = (j, dates)" by (cases e)
  show ?case by (simp only: e applyOOO_Cons Cons.IH fold_markOOO_None)
qed

lemma cell_applyOOO:
  "cell (applyOOO pl oooData) d i =
     (if map_of pl d \<noteq> None \<and> absent_on oooData i d then Some OOO else cell pl d i)"
proof (induction oooData arbitrary: pl)
  case Nil
  then show ?case by (simp add: applyOOO_Nil absent_on_def)
next
  case (Cons e oooData)
  obtain j dates where e: "e = (j, dates)" by (cases e)
  have a: "absent_on (e # oooData) i d \<longleftrightarrow> (i = j \<and> d \<in> set dates) \<or> absent_on oooData i d"
    by (auto simp add: absent_on_def e)
  show ?case
    by (simp only: e applyOOO_Cons Cons.IH fold_markOOO_None cell_fold_markOOO a [unfolded e]) auto
qed

lemma rows_distinct_applyOOO: "rows_distinct pl \<Longrightarrow> rows_distinct (applyOOO pl oooData)"
proof (induction oooData arbitrary: pl)
  case Nil
  then show ?case by (simp add: applyOOO_Nil)
next
  case (Cons e oooData)
  obtain j dates where e: "e = (j, dates)" by (cases e)
  from Cons show ?case by (simp only: e applyOOO_Cons rows_distinct_fold_markOOO)
qed

lemma forceISSY_None: "(map_of (forceISSY d p pl) d' = None) = (map_of pl d' = None)"
  by (simp add: forceISSY_def plan_set_None)

lemma cell_forceISSY:
  "cell (forceISSY d p pl) d' i =
     (if d' = d \<and> i = pid p \<and> map_of pl d \<noteq> None \<and> cell pl d i \<noteq> Some OOO then Some ISSY
      else cell pl d' i)"
  by (auto simp add: forceISSY_def cell_plan_set)

lemma rows_distinct_forceISSY: "rows_distinct pl \<Longrightarrow> rows_distinct (forceISSY d p pl)"
  by (simp add: forceISSY_def rows_distinct_plan_set)

lemma fold_forceISSY_None: "(map_of (fold (forceISSY d) ps pl) d' = None) = (map_of pl d' = None)"
  by (induction ps arbitrary: pl) (simp_all add: forceISSY_None)

lemma cell_fold_forceISSY:
  "cell (fold (forceISSY d) ps pl) d' i =
     (if d' = d \<and> i \<in> pid ` set ps \<and> map_of pl d \<noteq> None \<and> cell pl d i \<noteq> Some OOO then Some ISSY
      else cell pl d' i)"
proof (induction ps arbitrary: pl)
  case Nil
  then show ?case by simp
next
  case (Cons p ps)
  have "cell (fold (forceISSY d) (p # ps) pl) d' i = cell (fold (forceISSY d) ps (forceISSY d p pl)) d' i"
    by simp
  also have "\<dots> = (if d' = d \<and> i \<in> pid ` set ps \<and> map_of (forceISSY d p pl) d \<noteq> None
                        \<and> cell (forceISSY d p pl) d i \<noteq> Some OOO then Some ISSY
                    else cell (forceISSY d p pl) d' i)"
    by (rule Cons.IH)
  also have "\<dots> = (if d' = d \<and> i \<in> pid ` set (p # ps) \<and> map_of pl d \<noteq> None \<and> cell pl d i \<noteq> Some OOO
                    then Some ISSY else cell pl d' i)"
    by (simp only: forceISSY_None cell_forceISSY) auto
  finally show ?case .
qed

lemma rows_distinct_fold_forceISSY: "rows_distinct pl \<Longrightarrow> rows_distinct (fold (forceISSY d) ps pl)"
  by (induction ps arbitrary: pl) (simp_all add: rows_distinct_forceISSY)

lemma bubbleDay_None: "(map_of (bubbleDay people d pl) d' = None) = (map_of pl d' = None)"
  by (simp add: bubbleDay_def fold_forceISSY_None)

lemma cell_bubbleDay:
  "cell (bubbleDay people d pl) d' i =
     (if d' = d \<and> i \<in> roster people \<and> map_of pl d \<noteq> None \<and> cell pl d i \<noteq> Some OOO then Some ISSY
      else cell pl d' i)"
  by (auto simp add: bubbleDay_def cell_fold_forceISSY roster_def)

lemma rows_distinct_bubbleDay: "rows_distinct pl \<Longrightarrow> rows_distinct (bubbleDay people d pl)"
  by (simp add: bubbleDay_def rows_distinct_fold_forceISSY)

lemma applyBubbleLux_None: "(map_of (applyBubbleLux pl bs people) d = None) = (map_of pl d = None)"
  unfolding applyBubbleLux_def
  by (induction bs arbitrary: pl) (simp_all add: bubbleDay_None)

lemma cell_applyBubbleLux:
  "cell (applyBubbleLux pl bs people) d i =
     (if d \<in> set bs \<and> i \<in> roster people \<and> map_of pl d \<noteq> None \<and> cell pl d i \<noteq> Some OOO
      then Some ISSY else cell pl d i)"
  unfolding applyBubbleLux_def
proof (induction bs arbitrary: pl)
  case Nil
  then show ?case by simp
next
  case (Cons b bs)
  have "cell (fold (bubbleDay people) (b # bs) pl) d i = cell (fold (bubbleDay people) bs (bubbleDay people b pl)) d i"
    by simp
  also have "\<dots> = (if d \<in> set bs \<and> i \<in> roster people \<and> map_of (bubbleDay people b pl) d \<noteq> None
                       \<and> cell (bubbleDay people b pl) d i \<noteq> Some OOO
                    then Some ISSY else cell (bubbleDay people b pl) d i)"
    by (rule Cons.IH)
  also have "\<dots> = (if d \<in> set (b # bs) \<and> i \<in> roster people \<and> map_of pl d \<noteq> None \<and> cell pl d i \<noteq> Some OOO
      then Some ISSY else cell pl d i)"
    by (simp only: bubbleDay_None cell_bubbleDay) auto
  finally show ?case .
qed

lemma rows_distinct_applyBubbleLux: "rows_distinct pl \<Longrightarrow> rows_distinct (applyBubbleLux pl bs people)"
  unfolding applyBubbleLux_def
  by (induction bs arbitrary: pl) (simp_all add: rows_distinct_bubbleDay)

lemma overridePlan_None:
  "(map_of (overridePlan monthDays bs oooData people) d = None) = (d \<notin> set monthDays)"
  by (simp add: overridePlan_def applyBubbleLux_None applyOOO_None map_of_initPlan)

lemma cell_overridePlan:
  "cell (overridePlan monthDays bs oooData people) d i =
     (if d \<notin> set monthDays then None
      else if absent_on oooData i d then Some OOO
      else if i \<in> roster people then (if d \<in> set bs then Some ISSY else Some REMOTE)
      else None)"
  by (simp add: overridePlan_def cell_applyBubbleLux cell_applyOOO cell_initPlan
      applyOOO_None map_of_initPlan)

lemma rows_distinct_overridePlan: "rows_distinct (overridePlan monthDays bs oooData people)"
  by (simp add: overridePlan_def rows_distinct_applyBubbleLux rows_distinct_applyOOO
      rows_distinct_initPlan)

lemma ooo_includes_absent: "ooo_includes oooData i d \<Longrightarrow> absent_on oooData i d"
  by (auto simp add: ooo_includes_def absent_on_def split: option.splits dest: map_of_SomeD)


section \<open>The steps of a day\<close>

lemma open_in_update: "open_in r j \<Longrightarrow> v \<noteq> OOO \<Longrightarrow> open_in (AList.update i v r) j"
  by (auto simp add: open_in_def update_conv')

lemma same_shape_open_update:
  "open_in r i \<Longrightarrow> v \<noteq> OOO \<Longrightarrow> same_shape r (AList.update i v r)"
  by (auto simp add: open_in_def intro: same_shape_update)

lemma same_shape_open: "same_shape r r' \<Longrightarrow> open_in r' i = open_in r i"
proof -
  assume s: "same_shape r r'"
  have "(map_of r' i = None) = (map_of r i = None)" using s by (rule same_shape_dom)
  moreover have "(map_of r' i = Some OOO) = (map_of r i = Some OOO)" using s by (rule same_shape_OOO)
  ultimately show ?thesis
    unfolding open_in_def by (cases "map_of r i"; cases "map_of r' i") auto
qed

lemma same_shape_distinct: "same_shape r r' \<Longrightarrow> distinct (map fst r') = distinct (map fst r)"
  by (simp add: same_shape_def)

lemma dayUsage_update_le: "dayUsage (AList.update i v r) v \<le> dayUsage r v + 1"
  by (induction r) (auto simp add: dayUsage_Cons)

lemma stillRemote_open: "p \<in> set (stillRemote people r) \<Longrightarrow> open_in r (pid p)"
  by (simp add: stillRemote_def open_in_def)

lemma stillRemote_subset: "set (stillRemote people r) \<subseteq> set people"
  by (auto simp add: stillRemote_def)

subsection \<open>The counters\<close>

lemma bump_gc_dom: "bump_gc a i = Some a' \<Longrightarrow> dom a' = dom a"
  by (auto simp add: bump_gc_def split: option.splits if_splits)

lemma bump_gc_Some: "i \<in> dom a \<Longrightarrow> \<exists>a'. bump_gc a i = Some a'"
  by (auto simp add: bump_gc_def)

subsection \<open>Step 1\<close>

lemma fillGC_ConsE:
  assumes "fillGC (c # cands) r a = Some (r', a')"
  obtains
    (full) "dayUsage r GC \<ge> capacity_GC" and "r' = r" and "a' = a"
  | (assign) a1 where "\<not> dayUsage r GC \<ge> capacity_GC" and "snd c > 0"
      and "bump_gc a (pid (fst c)) = Some a1"
      and "fillGC cands (AList.update (pid (fst c)) GC r) a1 = Some (r', a')"
  | (skip) "\<not> dayUsage r GC \<ge> capacity_GC" and "\<not> snd c > 0"
      and "fillGC cands r a = Some (r', a')"
  using assms by (auto split: if_splits option.splits)

lemma fillGC_dom: "fillGC cands r a = Some (r', a') \<Longrightarrow> dom a' = dom a"
proof (induction cands arbitrary: r a)
  case Nil
  then show ?case by simp
next
  case (Cons c cands)
  from Cons.prems show ?case
  proof (cases rule: fillGC_ConsE)
    case full
    then show ?thesis by simp
  next
    case (assign a1)
    from assign(4) have "dom a' = dom a1" by (rule Cons.IH)
    also from assign(3) have "dom a1 = dom a" by (rule bump_gc_dom)
    finally show ?thesis .
  next
    case skip
    from skip(3) show ?thesis by (rule Cons.IH)
  qed
qed

lemma fillGC_Some:
  "\<forall>c\<in>set cands. pid (fst c) \<in> dom a \<Longrightarrow> \<exists>r' a'. fillGC cands r a = Some (r', a')"
proof (induction cands arbitrary: r a)
  case Nil
  then show ?case by simp
next
  case (Cons c cands)
  from Cons.prems obtain a1 where a1: "bump_gc a (pid (fst c)) = Some a1"
    using bump_gc_Some by fastforce
  then have "dom a1 = dom a" by (rule bump_gc_dom)
  with Cons.prems have "\<forall>c\<in>set cands. pid (fst c) \<in> dom a1" by simp
  then have "\<exists>r' a'. fillGC cands (AList.update (pid (fst c)) GC r) a1 = Some (r', a')"
    by (rule Cons.IH)
  moreover from Cons.prems have "\<exists>r' a'. fillGC cands r a = Some (r', a')"
    by (intro Cons.IH) simp
  ultimately show ?case using a1 by simp
qed

lemma fillGC_shape:
  "fillGC cands r a = Some (r', a') \<Longrightarrow> \<forall>c\<in>set cands. open_in r (pid (fst c)) \<Longrightarrow> same_shape r r'"
proof (induction cands arbitrary: r a)
  case Nil
  then show ?case by (simp add: same_shape_refl)
next
  case (Cons c cands)
  from Cons.prems(1) show ?case
  proof (cases rule: fillGC_ConsE)
    case full
    then show ?thesis by (simp add: same_shape_refl)
  next
    case (assign a1)
    from Cons.prems(2) have o: "open_in r (pid (fst c))" by simp
    then have s1: "same_shape r (AList.update (pid (fst c)) GC r)"
      by (rule same_shape_open_update) simp
    from Cons.prems(2) have "\<forall>c'\<in>set cands. open_in (AList.update (pid (fst c)) GC r) (pid (fst c'))"
      by (simp add: open_in_update)
    with assign(4) have "same_shape (AList.update (pid (fst c)) GC r) r'"
      by (rule Cons.IH)
    with s1 show ?thesis by (rule same_shape_trans)
  next
    case skip
    from Cons.prems(2) have "\<forall>c'\<in>set cands. open_in r (pid (fst c'))" by simp
    with skip(3) show ?thesis by (rule Cons.IH)
  qed
qed

lemma fillGC_capacity:
  "fillGC cands r a = Some (r', a') \<Longrightarrow> dayUsage r GC \<le> capacity_GC \<Longrightarrow> dayUsage r' GC \<le> capacity_GC"
proof (induction cands arbitrary: r a)
  case Nil
  then show ?case by simp
next
  case (Cons c cands)
  from Cons.prems(1) show ?case
  proof (cases rule: fillGC_ConsE)
    case full
    with Cons.prems(2) show ?thesis by simp
  next
    case (assign a1)
    have "dayUsage (AList.update (pid (fst c)) GC r) GC \<le> dayUsage r GC + 1"
      by (rule dayUsage_update_le)
    with assign(1) have "dayUsage (AList.update (pid (fst c)) GC r) GC \<le> capacity_GC" by simp
    with assign(4) show ?thesis by (rule Cons.IH)
  next
    case skip
    from skip(3) Cons.prems(2) show ?thesis by (rule Cons.IH)
  qed
qed

lemma fillGC_values:
  "fillGC cands r a = Some (r', a') \<Longrightarrow> snd ` set r' \<subseteq> insert GC (snd ` set r)"
proof (induction cands arbitrary: r a)
  case Nil
  then show ?case by auto
next
  case (Cons c cands)
  from Cons.prems(1) show ?case
  proof (cases rule: fillGC_ConsE)
    case full
    then show ?thesis by auto
  next
    case (assign a1)
    from assign(4) have "snd ` set r' \<subseteq> insert GC (snd ` set (AList.update (pid (fst c)) GC r))"
      by (rule Cons.IH)
    with update_values [of "pid (fst c)" GC r] show ?thesis by blast
  next
    case skip
    from skip(3) show ?thesis by (rule Cons.IH)
  qed
qed

subsection \<open>Step 1.5\<close>

lemma pullGC_dom: "pullGC ps r a = Some (r', a') \<Longrightarrow> dom a' = dom a"
proof (induction ps arbitrary: r a)
  case Nil
  then show ?case by simp
next
  case (Cons p ps)
  from Cons.prems(1) obtain a1 where
    a1: "bump_gc a (pid p) = Some a1" and
    rest: "pullGC ps (AList.update (pid p) GC r) a1 = Some (r', a')"
    by (auto split: option.splits)
  from rest have "dom a' = dom a1" by (rule Cons.IH)
  also from a1 have "dom a1 = dom a" by (rule bump_gc_dom)
  finally show ?case .
qed

lemma pullGC_Some:
  "\<forall>p\<in>set ps. pid p \<in> dom a \<Longrightarrow> \<exists>r' a'. pullGC ps r a = Some (r', a')"
proof (induction ps arbitrary: r a)
  case Nil
  then show ?case by simp
next
  case (Cons p ps)
  from Cons.prems obtain a1 where a1: "bump_gc a (pid p) = Some a1"
    using bump_gc_Some by fastforce
  then have "dom a1 = dom a" by (rule bump_gc_dom)
  with Cons.prems have "\<forall>p\<in>set ps. pid p \<in> dom a1" by simp
  then have "\<exists>r' a'. pullGC ps (AList.update (pid p) GC r) a1 = Some (r', a')"
    by (rule Cons.IH)
  then show ?case using a1 by simp
qed

lemma pullGC_shape:
  "pullGC ps r a = Some (r', a') \<Longrightarrow> \<forall>p\<in>set ps. open_in r (pid p) \<Longrightarrow> same_shape r r'"
proof (induction ps arbitrary: r a)
  case Nil
  then show ?case by (simp add: same_shape_refl)
next
  case (Cons p ps)
  from Cons.prems(1) obtain a1 where
    rest: "pullGC ps (AList.update (pid p) GC r) a1 = Some (r', a')"
    by (auto split: option.splits)
  from Cons.prems(2) have "open_in r (pid p)" by simp
  then have s1: "same_shape r (AList.update (pid p) GC r)"
    by (rule same_shape_open_update) simp
  from Cons.prems(2) have "\<forall>q\<in>set ps. open_in (AList.update (pid p) GC r) (pid q)"
    by (simp add: open_in_update)
  with rest have "same_shape (AList.update (pid p) GC r) r'" by (rule Cons.IH)
  with s1 show ?case by (rule same_shape_trans)
qed

lemma pullGC_values:
  "pullGC ps r a = Some (r', a') \<Longrightarrow> snd ` set r' \<subseteq> insert GC (snd ` set r)"
proof (induction ps arbitrary: r a)
  case Nil
  then show ?case by auto
next
  case (Cons p ps)
  from Cons.prems(1) obtain a1 where
    rest: "pullGC ps (AList.update (pid p) GC r) a1 = Some (r', a')"
    by (auto split: option.splits)
  then have "snd ` set r' \<subseteq> insert GC (snd ` set (AList.update (pid p) GC r))"
    by (rule Cons.IH)
  with update_values [of "pid p" GC r] show ?case by blast
qed

lemma pullGC_count:
  "pullGC ps r a = Some (r', a') \<Longrightarrow> distinct (map pid ps) \<Longrightarrow>
   \<forall>p\<in>set ps. map_of r (pid p) = Some REMOTE \<Longrightarrow>
   dayUsage r' GC = dayUsage r GC + length ps \<and>
   (\<forall>j. map_of r' j = (if j \<in> pid ` set ps then Some GC else map_of r j))"
proof (induction ps arbitrary: r a)
  case Nil
  then show ?case by simp
next
  case (Cons p ps)
  let ?r1 = "AList.update (pid p) GC r"
  from Cons.prems(1) obtain a1 where
    rest: "pullGC ps ?r1 a1 = Some (r', a')"
    by (auto split: option.splits)
  from Cons.prems(3) have p: "map_of r (pid p) = Some REMOTE" by simp
  then have c1: "dayUsage ?r1 GC = dayUsage r GC + 1"
    by (rule dayUsage_update_new) simp
  from Cons.prems(2) have d: "distinct (map pid ps)" and n: "pid p \<notin> pid ` set ps" by auto
  from n have "\<forall>q\<in>set ps. pid q \<noteq> pid p" by (metis imageI)
  with Cons.prems(3) have "\<forall>q\<in>set ps. map_of ?r1 (pid q) = Some REMOTE"
    by (simp add: update_conv')
  with rest d have ih: "dayUsage r' GC = dayUsage ?r1 GC + length ps \<and>
     (\<forall>j. map_of r' j = (if j \<in> pid ` set ps then Some GC else map_of ?r1 j))"
    by (rule Cons.IH)
  with c1 show ?case by (auto simp add: update_conv')
qed

subsection \<open>The candidates\<close>

lemma those_map_Some:
  "\<forall>x\<in>set xs. f x \<noteq> None \<Longrightarrow> those (map f xs) = Some (map (\<lambda>x. the (f x)) xs)"
  by (induction xs) auto

lemma those_Pair_fst:
  "those (map (\<lambda>p. map_option (Pair p) (g p)) ps) = Some cs \<Longrightarrow> map fst cs = ps"
proof (induction ps arbitrary: cs)
  case Nil
  then show ?case by simp
next
  case (Cons p ps)
  then show ?case by (auto split: option.splits)
qed

lemma gcPriorityOf_Some:
  "pid p \<in> dom a \<Longrightarrow> pid p \<in> dom tgt \<Longrightarrow> gcPriorityOf a tgt p \<noteq> None"
  by (auto simp add: gcPriorityOf_def)

lemma gcCandidates_Some:
  assumes "roster people \<subseteq> dom a" and "roster people \<subseteq> dom tgt"
  shows "\<exists>cs. gcCandidates people r a tgt = Some cs"
proof -
  have "\<forall>p\<in>set (stillRemote people r). map_option (Pair p) (gcPriorityOf a tgt p) \<noteq> None"
  proof
    fix p assume "p \<in> set (stillRemote people r)"
    then have "p \<in> set people" using stillRemote_subset by blast
    then have "pid p \<in> roster people" by (simp add: roster_def)
    with assms have "gcPriorityOf a tgt p \<noteq> None" by (intro gcPriorityOf_Some) auto
    then show "map_option (Pair p) (gcPriorityOf a tgt p) \<noteq> None" by simp
  qed
  then show ?thesis
    unfolding gcCandidates_def by (simp only: those_map_Some) simp
qed

lemma gcCandidates_mset:
  assumes "gcCandidates people r a tgt = Some cs"
  shows "mset (map fst cs) = mset (stillRemote people r)"
proof -
  from assms obtain cs0 where
    t: "those (map (\<lambda>p. map_option (Pair p) (gcPriorityOf a tgt p)) (stillRemote people r)) = Some cs0"
    and s: "cs = sort_key (\<lambda>c. - snd c) cs0"
    by (auto simp add: gcCandidates_def)
  from t have "map fst cs0 = stillRemote people r" by (rule those_Pair_fst)
  then have "mset (map fst cs0) = mset (stillRemote people r)" by simp
  moreover have "mset (map fst cs) = mset (map fst cs0)" by (simp add: s)
  ultimately show ?thesis by simp
qed

lemma gcCandidates_set:
  "gcCandidates people r a tgt = Some cs \<Longrightarrow> fst ` set cs = set (stillRemote people r)"
  using gcCandidates_mset [of people r a tgt cs] by (metis set_map set_mset_mset)

lemma availableForGC_mset:
  "availableForGC people r a tgt = Some avail \<Longrightarrow> mset avail = mset (stillRemote people r)"
  by (auto simp add: availableForGC_def dest: gcCandidates_mset)

lemma availableForGC_set:
  "availableForGC people r a tgt = Some avail \<Longrightarrow> set avail = set (stillRemote people r)"
  by (metis availableForGC_mset set_mset_mset)

lemma availableForGC_length:
  "availableForGC people r a tgt = Some avail \<Longrightarrow> length avail = length (stillRemote people r)"
  by (metis availableForGC_mset size_mset)

lemma availableForGC_distinct:
  assumes "availableForGC people r a tgt = Some avail" and "distinct (map pid people)"
  shows "distinct (map pid avail)"
proof -
  from assms(2) have "distinct (map pid (stillRemote people r))"
    by (simp add: stillRemote_def distinct_map_filter)
  moreover from assms(1) have "mset avail = mset (stillRemote people r)"
    by (rule availableForGC_mset)
  then have "image_mset pid (mset avail) = image_mset pid (mset (stillRemote people r))"
    by simp
  then have "mset (map pid avail) = mset (map pid (stillRemote people r))"
    by simp
  ultimately show ?thesis by (metis mset_eq_imp_distinct_iff)
qed

lemma availableForGC_Some:
  "roster people \<subseteq> dom a \<Longrightarrow> roster people \<subseteq> dom tgt \<Longrightarrow> \<exists>avail. availableForGC people r a tgt = Some avail"
  using gcCandidates_Some [of people a tgt r] by (auto simp add: availableForGC_def)

subsection \<open>Step 1.5, continued\<close>

lemma floorGC_E:
  assumes "floorGC people tgt r a = Some (r', a')"
  obtains
    (keep) "\<not> (0 < dayUsage r GC \<and> dayUsage r GC < 3)" and "r' = r" and "a' = a"
  | (pull) avail where "0 < dayUsage r GC" and "dayUsage r GC < 3"
      and "availableForGC people r a tgt = Some avail"
      and "pullGC (take (min (3 - dayUsage r GC) (length avail)) avail) r a = Some (r', a')"
proof (cases "0 < dayUsage r GC \<and> dayUsage r GC < 3")
  case False
  then have "floorGC people tgt r a = Some (r, a)"
    unfolding floorGC_def Let_def by (rule if_not_P)
  with assms have "r' = r" and "a' = a" by simp_all
  with False show ?thesis by (rule keep)
next
  case True
  with assms have c: "(case availableForGC people r a tgt of None \<Rightarrow> None
         | Some avail \<Rightarrow> pullGC (take (min (3 - dayUsage r GC) (length avail)) avail) r a) = Some (r', a')"
    by (simp add: floorGC_def Let_def)
  then obtain avail where av: "availableForGC people r a tgt = Some avail"
    by (cases "availableForGC people r a tgt") simp_all
  with c have "pullGC (take (min (3 - dayUsage r GC) (length avail)) avail) r a = Some (r', a')"
    by simp
  with True av show ?thesis by (intro pull) simp_all
qed

lemma floorGC_dom: "floorGC people tgt r a = Some (r', a') \<Longrightarrow> dom a' = dom a"
proof (erule floorGC_E)
  assume "a' = a"
  then show ?thesis by simp
next
  fix avail
  assume "pullGC (take (min (3 - dayUsage r GC) (length avail)) avail) r a = Some (r', a')"
  then show ?thesis by (rule pullGC_dom)
qed

lemma floorGC_Some:
  assumes "roster people \<subseteq> dom a" and "roster people \<subseteq> dom tgt"
  shows "\<exists>r' a'. floorGC people tgt r a = Some (r', a')"
proof (cases "0 < dayUsage r GC \<and> dayUsage r GC < 3")
  case True
  from assms obtain avail where av: "availableForGC people r a tgt = Some avail"
    using availableForGC_Some by blast
  then have "set avail \<subseteq> set people"
    using availableForGC_set stillRemote_subset by blast
  then have "\<forall>p\<in>set (take (min (3 - dayUsage r GC) (length avail)) avail). pid p \<in> dom a"
    using assms(1) by (auto simp add: roster_def dest!: in_set_takeD)
  then have "\<exists>r' a'. pullGC (take (min (3 - dayUsage r GC) (length avail)) avail) r a = Some (r', a')"
    by (rule pullGC_Some)
  with True av show ?thesis by (simp add: floorGC_def Let_def)
next
  case False
  then have "floorGC people tgt r a = Some (r, a)"
    unfolding floorGC_def Let_def by (rule if_not_P)
  then show ?thesis by simp
qed

lemma floorGC_shape: "floorGC people tgt r a = Some (r', a') \<Longrightarrow> same_shape r r'"
proof (erule floorGC_E)
  assume "r' = r"
  then show ?thesis by (simp add: same_shape_refl)
next
  fix avail
  assume av: "availableForGC people r a tgt = Some avail"
    and pl: "pullGC (take (min (3 - dayUsage r GC) (length avail)) avail) r a = Some (r', a')"
  have "\<forall>p\<in>set (take (min (3 - dayUsage r GC) (length avail)) avail). open_in r (pid p)"
    using availableForGC_set [OF av] stillRemote_open by (auto dest!: in_set_takeD)
  with pl show ?thesis by (rule pullGC_shape)
qed

lemma floorGC_values: "floorGC people tgt r a = Some (r', a') \<Longrightarrow> snd ` set r' \<subseteq> insert GC (snd ` set r)"
proof (erule floorGC_E)
  assume "r' = r"
  then show ?thesis by auto
next
  fix avail
  assume "pullGC (take (min (3 - dayUsage r GC) (length avail)) avail) r a = Some (r', a')"
  then show ?thesis by (rule pullGC_values)
qed

lemma floorGC_zero: "floorGC people tgt r a = Some (r', a') \<Longrightarrow> dayUsage r GC = 0 \<Longrightarrow> r' = r"
  by (erule floorGC_E) auto

lemma floorGC_count:
  assumes f: "floorGC people tgt r a = Some (r', a')" and d: "distinct (map pid people)"
  shows "(r' = r \<and> \<not> (0 < dayUsage r GC \<and> dayUsage r GC < 3))
       \<or> dayUsage r' GC = 3
       \<or> (dayUsage r' GC < 3 \<and> stillRemote people r' = [])"
  using f
proof (cases rule: floorGC_E)
  case keep
  then show ?thesis by simp
next
  case (pull avail)
  let ?n = "min (3 - dayUsage r GC) (length avail)"
  let ?ps = "take ?n avail"
  have sub: "set ?ps \<subseteq> set (stillRemote people r)"
    using availableForGC_set [OF pull(3)] by (auto dest!: in_set_takeD)
  have rem: "\<forall>p\<in>set ?ps. map_of r (pid p) = Some REMOTE"
    using sub by (auto simp add: stillRemote_def)
  have "distinct (map pid avail)" using pull(3) d by (rule availableForGC_distinct)
  then have dist: "distinct (map pid ?ps)" by (simp add: distinct_take flip: take_map)
  from pullGC_count [OF pull(4) dist rem]
  have cnt: "dayUsage r' GC = dayUsage r GC + length ?ps"
    and cells: "\<And>j. map_of r' j = (if j \<in> pid ` set ?ps then Some GC else map_of r j)"
    by auto
  show ?thesis
  proof (cases "3 - dayUsage r GC \<le> length avail")
    case True
    with cnt pull(2) have "dayUsage r' GC = 3" by simp
    then show ?thesis by simp
  next
    case False
    then have all: "?ps = avail" by simp
    have "stillRemote people r' = []"
    proof (rule ccontr)
      assume "stillRemote people r' \<noteq> []"
      then obtain p where p: "p \<in> set people" and r': "map_of r' (pid p) = Some REMOTE"
        by (auto simp add: stillRemote_def filter_empty_conv)
      from r' cells [of "pid p"] have notin: "pid p \<notin> pid ` set ?ps" and "map_of r (pid p) = Some REMOTE"
        by (auto split: if_splits)
      with p have "p \<in> set (stillRemote people r)" by (simp add: stillRemote_def)
      then have "p \<in> set ?ps" using all availableForGC_set [OF pull(3)] by simp
      with notin show False by blast
    qed
    moreover from False cnt all have "dayUsage r' GC < 3" by simp
    ultimately show ?thesis by simp
  qed
qed

subsection \<open>Step 2\<close>

lemma routeRest_ConsE:
  assumes "routeRest (p # ps) tgt r a = Some (r', a')"
  obtains a0 v a1 where "a (pid p) = Some a0" and "pid p \<in> dom tgt"
    and "v = ISSY \<or> v = REMOTE"
    and "v = ISSY \<longrightarrow> dayUsage r ISSY < capacity_ISSY"
    and "dom a1 = dom a"
    and "routeRest ps tgt (AList.update (pid p) v r) a1 = Some (r', a')"
proof -
  from assms obtain a0 where a0: "a (pid p) = Some a0"
    by (cases "a (pid p)") simp_all
  from assms a0 obtain t where t: "tgt (pid p) = Some t"
    by (cases "tgt (pid p)") simp_all
  have d: "dom (a(pid p \<mapsto> x)) = dom a" for x using a0 by auto
  show ?thesis
  proof (cases "calculateIssyPriority p a0 t > calculateRemotePriority p a0 t \<and> dayUsage r ISSY < capacity_ISSY")
    case True
    with assms a0 t
    have "routeRest ps tgt (AList.update (pid p) ISSY r) (a(pid p \<mapsto> a0\<lparr>issy := issy a0 + 1\<rparr>)) = Some (r', a')"
      by (simp add: Let_def)
    with a0 t True d show ?thesis by (intro that [of a0 ISSY]) auto
  next
    case False
    with assms a0 t
    have "routeRest ps tgt (AList.update (pid p) REMOTE r) (a(pid p \<mapsto> a0\<lparr>remote := remote a0 + 1\<rparr>)) = Some (r', a')"
      by (simp add: Let_def)
    with a0 t d show ?thesis by (intro that [of a0 REMOTE]) auto
  qed
qed

lemma routeRest_dom: "routeRest ps tgt r a = Some (r', a') \<Longrightarrow> dom a' = dom a"
proof (induction ps arbitrary: r a)
  case Nil
  then show ?case by simp
next
  case (Cons p ps)
  from Cons.prems obtain v a1 where "dom a1 = dom a"
    and "routeRest ps tgt (AList.update (pid p) v r) a1 = Some (r', a')"
    by (rule routeRest_ConsE)
  then show ?case using Cons.IH by metis
qed

lemma routeRest_Some:
  "\<forall>p\<in>set ps. pid p \<in> dom a \<and> pid p \<in> dom tgt \<Longrightarrow> \<exists>r' a'. routeRest ps tgt r a = Some (r', a')"
proof (induction ps arbitrary: r a)
  case Nil
  then show ?case by simp
next
  case (Cons p ps)
  from Cons.prems obtain a0 t where a0: "a (pid p) = Some a0" and t: "tgt (pid p) = Some t"
    by auto
  have d: "dom (a(pid p \<mapsto> x)) = dom a" for x using a0 by auto
  have "\<forall>q\<in>set ps. pid q \<in> dom (a(pid p \<mapsto> x)) \<and> pid q \<in> dom tgt" for x
    unfolding d using Cons.prems by simp
  then have "\<exists>r' a'. routeRest ps tgt r1 (a(pid p \<mapsto> x)) = Some (r', a')" for r1 x
    by (rule Cons.IH)
  then show ?case using a0 t by (simp add: Let_def)
qed

lemma routeRest_shape:
  "routeRest ps tgt r a = Some (r', a') \<Longrightarrow> \<forall>p\<in>set ps. open_in r (pid p) \<Longrightarrow> same_shape r r'"
proof (induction ps arbitrary: r a)
  case Nil
  then show ?case by (simp add: same_shape_refl)
next
  case (Cons p ps)
  from Cons.prems(1) obtain v a1 where v: "v = ISSY \<or> v = REMOTE"
    and rest: "routeRest ps tgt (AList.update (pid p) v r) a1 = Some (r', a')"
    by (rule routeRest_ConsE)
  from v have v': "v \<noteq> OOO" by auto
  from Cons.prems(2) have "open_in r (pid p)" by simp
  then have s1: "same_shape r (AList.update (pid p) v r)"
    using v' by (rule same_shape_open_update)
  from Cons.prems(2) v' have "\<forall>q\<in>set ps. open_in (AList.update (pid p) v r) (pid q)"
    by (simp add: open_in_update)
  with rest have "same_shape (AList.update (pid p) v r) r'" by (rule Cons.IH)
  with s1 show ?case by (rule same_shape_trans)
qed

lemma routeRest_GC:
  "routeRest ps tgt r a = Some (r', a') \<Longrightarrow>
   \<forall>p\<in>set ps. map_of r (pid p) = Some REMOTE \<or> map_of r (pid p) = Some ISSY \<Longrightarrow>
   dayUsage r' GC = dayUsage r GC"
proof (induction ps arbitrary: r a)
  case Nil
  then show ?case by simp
next
  case (Cons p ps)
  from Cons.prems(1) obtain v a1 where v: "v = ISSY \<or> v = REMOTE"
    and rest: "routeRest ps tgt (AList.update (pid p) v r) a1 = Some (r', a')"
    by (rule routeRest_ConsE)
  let ?r1 = "AList.update (pid p) v r"
  from Cons.prems(2) obtain s0 where s0: "map_of r (pid p) = Some s0" and s0': "s0 = REMOTE \<or> s0 = ISSY"
    by auto
  from s0' v have "dayUsage ?r1 GC = dayUsage r GC"
    by (intro dayUsage_update_other [OF s0]) auto
  moreover from Cons.prems(2) v
  have "\<forall>q\<in>set ps. map_of ?r1 (pid q) = Some REMOTE \<or> map_of ?r1 (pid q) = Some ISSY"
    by (auto simp add: update_conv')
  with rest have "dayUsage r' GC = dayUsage ?r1 GC" by (rule Cons.IH)
  ultimately show ?case by simp
qed

subsection \<open>Step 3\<close>

lemma issy_filter: "filter (\<lambda>(k, s). s = ISSY) r = filter (\<lambda>kv. snd kv = ISSY) r"
  by (rule filter_cong) auto

lemma loneIssy_E:
  assumes "loneIssy r a = Some (r', a')"
  obtains
    (keep) "dayUsage r ISSY \<noteq> 1" and "r' = r" and "a' = a"
  | (move) k where "dayUsage r ISSY = 1" and "(k, ISSY) \<in> set r" and "k \<in> dom a"
      and "r' = AList.update k REMOTE r" and "dom a' = dom a"
proof (cases "dayUsage r ISSY = 1")
  case False
  then have "length (filter (\<lambda>(k, s). s = ISSY) r) \<noteq> 1"
    by (simp add: dayUsage_filter issy_filter)
  then have "\<not> (\<exists>k s. filter (\<lambda>(k, s). s = ISSY) r = [(k, s)])" by auto
  then have "loneIssy r a = Some (r, a)"
    unfolding loneIssy_def by (auto split: list.splits)
  with assms False show ?thesis by (intro keep) simp_all
next
  case True
  then have "length (filter (\<lambda>(k, s). s = ISSY) r) = 1"
    by (simp add: dayUsage_filter issy_filter)
  then obtain k s where f: "filter (\<lambda>(k, s). s = ISSY) r = [(k, s)]"
    by (auto simp add: length_Suc_conv)
  then have "(k, s) \<in> set (filter (\<lambda>(k, s). s = ISSY) r)" by simp
  then have mem: "(k, ISSY) \<in> set r" by auto
  from assms f obtain a0 where a0: "a k = Some a0"
    by (cases "a k") (simp_all add: loneIssy_def)
  with assms f have "r' = AList.update k REMOTE r"
    and "a' = a(k \<mapsto> a0\<lparr>issy := issy a0 - 1, remote := remote a0 + 1\<rparr>)"
    by (simp_all add: loneIssy_def)
  moreover from a0 have "dom (a(k \<mapsto> a0\<lparr>issy := issy a0 - 1, remote := remote a0 + 1\<rparr>)) = dom a"
    by auto
  ultimately show ?thesis using True mem a0 by (intro move [of k]) auto
qed

lemma loneIssy_dom: "loneIssy r a = Some (r', a') \<Longrightarrow> dom a' = dom a"
  by (erule loneIssy_E) simp_all

lemma loneIssy_Some:
  assumes "\<forall>k. (k, ISSY) \<in> set r \<longrightarrow> k \<in> dom a"
  shows "\<exists>r' a'. loneIssy r a = Some (r', a')"
proof (cases "\<exists>k s. filter (\<lambda>(k, s). s = ISSY) r = [(k, s)]")
  case True
  then obtain k s where f: "filter (\<lambda>(k, s). s = ISSY) r = [(k, s)]" by blast
  then have "(k, s) \<in> set (filter (\<lambda>(k, s). s = ISSY) r)" by simp
  then have "(k, ISSY) \<in> set r" by auto
  with assms obtain a0 where "a k = Some a0" by auto
  with f show ?thesis by (simp add: loneIssy_def)
next
  case False
  then have "loneIssy r a = Some (r, a)"
    unfolding loneIssy_def by (auto split: list.splits)
  then show ?thesis by simp
qed

lemma loneIssy_shape:
  "loneIssy r a = Some (r', a') \<Longrightarrow> distinct (map fst r) \<Longrightarrow> same_shape r r'"
proof (erule loneIssy_E)
  assume "r' = r"
  then show ?thesis by (simp add: same_shape_refl)
next
  fix k
  assume d: "distinct (map fst r)" and m: "(k, ISSY) \<in> set r" and r': "r' = AList.update k REMOTE r"
  from d m have "map_of r k = Some ISSY" by simp
  then have "same_shape r (AList.update k REMOTE r)" by (rule same_shape_update) simp_all
  with r' show ?thesis by simp
qed

lemma loneIssy_GC:
  "loneIssy r a = Some (r', a') \<Longrightarrow> distinct (map fst r) \<Longrightarrow> dayUsage r' GC = dayUsage r GC"
proof (erule loneIssy_E)
  assume "r' = r"
  then show ?thesis by simp
next
  fix k
  assume d: "distinct (map fst r)" and m: "(k, ISSY) \<in> set r" and r': "r' = AList.update k REMOTE r"
  from d m have "map_of r k = Some ISSY" by simp
  then have "dayUsage (AList.update k REMOTE r) GC = dayUsage r GC"
    by (rule dayUsage_update_other) simp_all
  with r' show ?thesis by simp
qed

lemma loneIssy_ISSY:
  "loneIssy r a = Some (r', a') \<Longrightarrow> distinct (map fst r) \<Longrightarrow> dayUsage r' ISSY \<noteq> 1"
proof (erule loneIssy_E)
  assume "dayUsage r ISSY \<noteq> 1" and "r' = r"
  then show ?thesis by simp
next
  fix k
  assume d: "distinct (map fst r)" and m: "(k, ISSY) \<in> set r" and r': "r' = AList.update k REMOTE r"
    and one: "dayUsage r ISSY = 1"
  from d m have "map_of r k = Some ISSY" by simp
  then have "dayUsage (AList.update k REMOTE r) ISSY + 1 = dayUsage r ISSY"
    by (rule dayUsage_update_old) simp
  with r' one show ?thesis by simp
qed

lemma loneIssy_none: "ISSY \<notin> snd ` set r \<Longrightarrow> loneIssy r a = Some (r, a)"
proof -
  assume "ISSY \<notin> snd ` set r"
  then have "filter (\<lambda>(k, s). s = ISSY) r = []"
    by (force simp add: filter_empty_conv)
  then show ?thesis by (simp add: loneIssy_def)
qed

subsection \<open>A whole day\<close>

lemma processDay_E:
  assumes "processDay people tgt r a = Some (r', a')"
  obtains cs r1 a1 r2 a2 r3 a3 where
    "gcCandidates people r a tgt = Some cs" and
    "fillGC cs r a = Some (r1, a1)" and
    "floorGC people tgt r1 a1 = Some (r2, a2)" and
    "routeRest (stillRemote people r2) tgt r2 a2 = Some (r3, a3)" and
    "loneIssy r3 a3 = Some (r', a')"
  using assms unfolding processDay_def
  by (auto simp add: bind_eq_Some_conv split: prod.splits)

lemma processDay_I:
  assumes "gcCandidates people r a tgt = Some cs" and
    "fillGC cs r a = Some (r1, a1)" and
    "floorGC people tgt r1 a1 = Some (r2, a2)" and
    "routeRest (stillRemote people r2) tgt r2 a2 = Some (r3, a3)" and
    "loneIssy r3 a3 = Some (r', a')"
  shows "processDay people tgt r a = Some (r', a')"
  using assms unfolding processDay_def by simp

lemma candidates_open:
  "gcCandidates people r a tgt = Some cs \<Longrightarrow> \<forall>c\<in>set cs. open_in r (pid (fst c))"
  using gcCandidates_set [of people r a tgt cs] stillRemote_open by fastforce

lemma processDay_shapes:
  assumes "gcCandidates people r a tgt = Some cs" and
    "fillGC cs r a = Some (r1, a1)" and
    "floorGC people tgt r1 a1 = Some (r2, a2)" and
    "routeRest (stillRemote people r2) tgt r2 a2 = Some (r3, a3)"
  shows "same_shape r r1" and "same_shape r r2" and "same_shape r r3"
proof -
  from assms(2) candidates_open [OF assms(1)] show s1: "same_shape r r1"
    by (rule fillGC_shape)
  from assms(3) have "same_shape r1 r2" by (rule floorGC_shape)
  with s1 show s2: "same_shape r r2" by (rule same_shape_trans)
  from assms(4) have "same_shape r2 r3"
    by (rule routeRest_shape) (simp add: stillRemote_open)
  with s2 show "same_shape r r3" by (rule same_shape_trans)
qed

lemma processDay_shape:
  assumes "processDay people tgt r a = Some (r', a')" and "distinct (map fst r)"
  shows "same_shape r r'"
  using assms(1)
proof (cases rule: processDay_E)
  case (1 cs r1 a1 r2 a2 r3 a3)
  from 1(1-4) have s3: "same_shape r r3" by (rule processDay_shapes)
  with assms(2) have "distinct (map fst r3)" by (simp add: same_shape_distinct)
  with 1(5) have "same_shape r3 r'" by (rule loneIssy_shape)
  with s3 show ?thesis by (rule same_shape_trans)
qed

lemma processDay_dom:
  assumes "processDay people tgt r a = Some (r', a')"
  shows "dom a' = dom a"
  using assms
proof (cases rule: processDay_E)
  case (1 cs r1 a1 r2 a2 r3 a3)
  from 1(5) have "dom a' = dom a3" by (rule loneIssy_dom)
  also from 1(4) have "\<dots> = dom a2" by (rule routeRest_dom)
  also from 1(3) have "\<dots> = dom a1" by (rule floorGC_dom)
  also from 1(2) have "\<dots> = dom a" by (rule fillGC_dom)
  finally show ?thesis .
qed

lemma processDay_Some:
  assumes a: "roster people \<subseteq> dom a" and t: "roster people \<subseteq> dom tgt"
    and d: "distinct (map fst r)" and ok: "\<forall>i. open_in r i \<longrightarrow> i \<in> roster people"
  shows "\<exists>r' a'. processDay people tgt r a = Some (r', a')"
proof -
  from a t obtain cs where cs: "gcCandidates people r a tgt = Some cs"
    using gcCandidates_Some by blast
  have "\<forall>c\<in>set cs. pid (fst c) \<in> dom a"
  proof
    fix c assume "c \<in> set cs"
    then have "fst c \<in> set (stillRemote people r)"
      using gcCandidates_set [OF cs] by auto
    then have "fst c \<in> set people" using stillRemote_subset by blast
    with a show "pid (fst c) \<in> dom a" by (auto simp add: roster_def)
  qed
  then obtain r1 a1 where f: "fillGC cs r a = Some (r1, a1)"
    using fillGC_Some by blast
  then have a1: "dom a1 = dom a" by (rule fillGC_dom)
  with a t obtain r2 a2 where fl: "floorGC people tgt r1 a1 = Some (r2, a2)"
    using floorGC_Some [of people a1 tgt r1] by auto
  then have a2: "dom a2 = dom a1" by (rule floorGC_dom)
  have "\<forall>p\<in>set (stillRemote people r2). pid p \<in> dom a2 \<and> pid p \<in> dom tgt"
  proof
    fix p assume "p \<in> set (stillRemote people r2)"
    then have "p \<in> set people" using stillRemote_subset by blast
    with a t a1 a2 show "pid p \<in> dom a2 \<and> pid p \<in> dom tgt" by (auto simp add: roster_def)
  qed
  then obtain r3 a3 where ro: "routeRest (stillRemote people r2) tgt r2 a2 = Some (r3, a3)"
    using routeRest_Some by blast
  then have a3: "dom a3 = dom a2" by (rule routeRest_dom)
  from cs f fl ro have s3: "same_shape r r3" by (rule processDay_shapes)
  with d have d3: "distinct (map fst r3)" by (simp add: same_shape_distinct)
  have "\<forall>k. (k, ISSY) \<in> set r3 \<longrightarrow> k \<in> dom a3"
  proof (intro allI impI)
    fix k assume "(k, ISSY) \<in> set r3"
    with d3 have "map_of r3 k = Some ISSY" by simp
    then have "open_in r3 k" by (simp add: open_in_def)
    with s3 have "open_in r k" by (simp add: same_shape_open)
    with ok have "k \<in> roster people" by simp
    with a a1 a2 a3 show "k \<in> dom a3" by auto
  qed
  then obtain r' a' where "loneIssy r3 a3 = Some (r', a')"
    using loneIssy_Some by blast
  with cs f fl ro have "processDay people tgt r a = Some (r', a')" by (rule processDay_I)
  then show ?thesis by blast
qed

lemma processDay_ISSY:
  assumes "processDay people tgt r a = Some (r', a')" and "distinct (map fst r)"
  shows "dayUsage r' ISSY \<noteq> 1"
  using assms(1)
proof (cases rule: processDay_E)
  case (1 cs r1 a1 r2 a2 r3 a3)
  from 1(1-4) have "same_shape r r3" by (rule processDay_shapes)
  with assms(2) have "distinct (map fst r3)" by (simp add: same_shape_distinct)
  with 1(5) show ?thesis by (rule loneIssy_ISSY)
qed

lemma values_step: "A \<subseteq> insert x B \<Longrightarrow> B \<subseteq> C \<Longrightarrow> A \<subseteq> insert x C"
  by blast

lemma processDay_GC:
  assumes pd: "processDay people tgt r a = Some (r', a')" and d: "distinct (map fst r)"
    and v: "snd ` set r \<subseteq> {REMOTE, OOO}" and dp: "distinct (map pid people)"
  shows "dayUsage r' GC \<le> capacity_GC \<and>
         (dayUsage r' GC = 0 \<or> 3 \<le> dayUsage r' GC \<or>
          (\<forall>p\<in>set people. map_of r' (pid p) \<noteq> Some REMOTE \<and> map_of r' (pid p) \<noteq> Some ISSY))"
  using pd
proof (cases rule: processDay_E)
  case (1 cs r1 a1 r2 a2 r3 a3)
  from v have "GC \<notin> snd ` set r" by auto
  then have "dayUsage r GC = 0" by (simp add: dayUsage_zero_iff)
  then have "dayUsage r GC \<le> capacity_GC" by simp
  with 1(2) have c1: "dayUsage r1 GC \<le> capacity_GC" by (rule fillGC_capacity)
  from 1(1-4) have s3: "same_shape r r3" by (rule processDay_shapes)
  with d have d3: "distinct (map fst r3)" by (simp add: same_shape_distinct)
  have "snd ` set r1 \<subseteq> insert GC (snd ` set r)" using 1(2) by (rule fillGC_values)
  then have v1: "snd ` set r1 \<subseteq> {GC, REMOTE, OOO}" using v by (rule values_step)
  have "snd ` set r2 \<subseteq> insert GC (snd ` set r1)" using 1(3) by (rule floorGC_values)
  then have "snd ` set r2 \<subseteq> insert GC {GC, REMOTE, OOO}" using v1 by (rule values_step)
  then have v2: "snd ` set r2 \<subseteq> {GC, REMOTE, OOO}" by simp
  have "dayUsage r3 GC = dayUsage r2 GC"
    using 1(4) by (rule routeRest_GC) (simp add: stillRemote_def)
  moreover have "dayUsage r' GC = dayUsage r3 GC"
    using 1(5) d3 by (rule loneIssy_GC)
  ultimately have eq: "dayUsage r' GC = dayUsage r2 GC" by simp
  from floorGC_count [OF 1(3) dp]
  consider (keep) "r2 = r1" and "\<not> (0 < dayUsage r1 GC \<and> dayUsage r1 GC < 3)"
    | (three) "dayUsage r2 GC = 3"
    | (short) "dayUsage r2 GC < 3" and "stillRemote people r2 = []"
    by blast
  then show ?thesis
  proof cases
    case keep
    from keep(1) c1 eq have "dayUsage r' GC \<le> capacity_GC" by simp
    moreover from keep eq have "dayUsage r' GC = 0 \<or> 3 \<le> dayUsage r' GC" by simp linarith
    ultimately show ?thesis by blast
  next
    case three
    with eq have "dayUsage r' GC \<le> capacity_GC" and "3 \<le> dayUsage r' GC"
      by (simp_all add: capacity_GC_def)
    then show ?thesis by blast
  next
    case short
    with 1(4) have r3: "r3 = r2" by simp
    from v2 have "ISSY \<notin> snd ` set r2" by auto
    then have "loneIssy r2 a3 = Some (r2, a3)" by (rule loneIssy_none)
    with 1(5) r3 have r': "r' = r2" by simp
    have "\<forall>p\<in>set people. map_of r2 (pid p) \<noteq> Some REMOTE \<and> map_of r2 (pid p) \<noteq> Some ISSY"
    proof
      fix p assume p: "p \<in> set people"
      from short(2) have "\<forall>q\<in>set people. map_of r2 (pid q) \<noteq> Some REMOTE"
        by (simp add: stillRemote_def filter_empty_conv)
      with p have "map_of r2 (pid p) \<noteq> Some REMOTE" by blast
      moreover have "map_of r2 (pid p) \<noteq> Some ISSY"
      proof
        assume "map_of r2 (pid p) = Some ISSY"
        then have "(pid p, ISSY) \<in> set r2" by (rule map_of_SomeD)
        then have "ISSY \<in> snd ` set r2" by force
        with v2 show False by auto
      qed
      ultimately show "map_of r2 (pid p) \<noteq> Some REMOTE \<and> map_of r2 (pid p) \<noteq> Some ISSY" ..
    qed
    moreover from short(1) eq have "dayUsage r' GC \<le> capacity_GC" by (simp add: capacity_GC_def)
    ultimately show ?thesis using r' by blast
  qed
qed

section \<open>The loop over the days\<close>

lemma plan_shape_refl: "plan_shape pl pl"
  by (simp add: plan_shape_def option.rel_refl same_shape_refl)

lemma plan_shape_trans: "plan_shape pl pl1 \<Longrightarrow> plan_shape pl1 pl2 \<Longrightarrow> plan_shape pl pl2"
  unfolding plan_shape_def
proof
  fix d
  assume 1: "\<forall>d. rel_option same_shape (map_of pl d) (map_of pl1 d)"
    and 2: "\<forall>d. rel_option same_shape (map_of pl1 d) (map_of pl2 d)"
  from 1 have a: "rel_option same_shape (map_of pl d) (map_of pl1 d)" ..
  from 2 have b: "rel_option same_shape (map_of pl1 d) (map_of pl2 d)" ..
  from a b show "rel_option same_shape (map_of pl d) (map_of pl2 d)"
    by (cases "map_of pl d"; cases "map_of pl1 d"; cases "map_of pl2 d")
       (auto intro: same_shape_trans)
qed

lemma plan_shape_update:
  "map_of pl d = Some r \<Longrightarrow> same_shape r r' \<Longrightarrow> plan_shape pl (AList.update d r' pl)"
  by (simp add: plan_shape_def update_conv' option.rel_refl same_shape_refl)

lemma plan_shape_SomeD:
  "plan_shape pl pl' \<Longrightarrow> map_of pl d = Some r \<Longrightarrow> \<exists>r'. map_of pl' d = Some r' \<and> same_shape r r'"
  unfolding plan_shape_def by (metis option.rel_distinct(2) option.rel_inject(2) option.exhaust)

lemma plan_shape_None: "plan_shape pl pl' \<Longrightarrow> (map_of pl' d = None) = (map_of pl d = None)"
  unfolding plan_shape_def by (metis option.rel_distinct(1,2) option.exhaust)

lemma plan_shape_distinct:
  assumes "plan_shape pl pl'" and "rows_distinct pl"
  shows "rows_distinct pl'"
  unfolding rows_distinct_def
proof (intro allI impI)
  fix d r' assume r': "map_of pl' d = Some r'"
  with assms(1) obtain r where r: "map_of pl d = Some r"
    using plan_shape_None [of pl pl' d] by (cases "map_of pl d") auto
  with assms(1) obtain r'' where "map_of pl' d = Some r''" and "same_shape r r''"
    using plan_shape_SomeD by blast
  with r' have "same_shape r r'" by simp
  moreover from assms(2) r have "distinct (map fst r)" by (auto simp add: rows_distinct_def)
  ultimately show "distinct (map fst r')" by (simp add: same_shape_distinct)
qed

lemma plan_shape_ok:
  assumes "plan_shape pl pl'" and "rows_ok people pl"
  shows "rows_ok people pl'"
  unfolding rows_ok_def
proof (intro allI impI)
  fix d r' i assume "map_of pl' d = Some r' \<and> open_in r' i"
  then have r': "map_of pl' d = Some r'" and o: "open_in r' i" by auto
  with assms(1) obtain r where r: "map_of pl d = Some r"
    using plan_shape_None [of pl pl' d] by (cases "map_of pl d") auto
  with assms(1) obtain r'' where "map_of pl' d = Some r''" and "same_shape r r''"
    using plan_shape_SomeD by blast
  with r' have "same_shape r r'" by simp
  with o have "open_in r i" by (simp add: same_shape_open)
  with assms(2) r show "i \<in> roster people" by (auto simp add: rows_ok_def)
qed

lemma dayLoop_ConsE:
  assumes "dayLoop (d # rest) bs people tgt pl a = Some (pl', a')"
  obtains
    (skip) "d \<in> set bs" and "dayLoop rest bs people tgt pl a = Some (pl', a')"
  | (day) r r1 a1 where "d \<notin> set bs" and "map_of pl d = Some r"
      and "processDay people tgt r a = Some (r1, a1)"
      and "dayLoop rest bs people tgt (AList.update d r1 pl) a1 = Some (pl', a')"
proof (cases "d \<in> set bs")
  case True
  with assms show ?thesis by (intro skip) simp_all
next
  case False
  with assms obtain r where r: "map_of pl d = Some r"
    by (cases "map_of pl d") simp_all
  with assms False obtain r1 a1 where p: "processDay people tgt r a = Some (r1, a1)"
    by (cases "processDay people tgt r a") auto
  with assms False r have "dayLoop rest bs people tgt (AList.update d r1 pl) a1 = Some (pl', a')"
    by simp
  with False r p show ?thesis by (rule day)
qed

lemma dayLoop_shape:
  "dayLoop ds bs people tgt pl a = Some (pl', a') \<Longrightarrow> rows_distinct pl \<Longrightarrow> plan_shape pl pl'"
proof (induction ds arbitrary: pl a)
  case Nil
  then show ?case by (simp add: plan_shape_refl)
next
  case (Cons d rest)
  from Cons.prems(1) show ?case
  proof (cases rule: dayLoop_ConsE)
    case skip
    from skip(2) Cons.prems(2) show ?thesis by (rule Cons.IH)
  next
    case (day r r1 a1)
    from Cons.prems(2) day(2) have "distinct (map fst r)" by (auto simp add: rows_distinct_def)
    with day(3) have "same_shape r r1" by (rule processDay_shape)
    with day(2) have s: "plan_shape pl (AList.update d r1 pl)" by (rule plan_shape_update)
    then have "rows_distinct (AList.update d r1 pl)" using Cons.prems(2) by (rule plan_shape_distinct)
    with day(4) have "plan_shape (AList.update d r1 pl) pl'" by (rule Cons.IH)
    with s show ?thesis by (rule plan_shape_trans)
  qed
qed

lemma dayLoop_dom: "dayLoop ds bs people tgt pl a = Some (pl', a') \<Longrightarrow> dom a' = dom a"
proof (induction ds arbitrary: pl a)
  case Nil
  then show ?case by simp
next
  case (Cons d rest)
  from Cons.prems(1) show ?case
  proof (cases rule: dayLoop_ConsE)
    case skip
    from skip(2) show ?thesis by (rule Cons.IH)
  next
    case (day r r1 a1)
    from day(4) have "dom a' = dom a1" by (rule Cons.IH)
    also from day(3) have "\<dots> = dom a" by (rule processDay_dom)
    finally show ?thesis .
  qed
qed

lemma dayLoop_Some:
  assumes "roster people \<subseteq> dom tgt"
  shows "roster people \<subseteq> dom a \<Longrightarrow> rows_distinct pl \<Longrightarrow> rows_ok people pl \<Longrightarrow>
    \<forall>d\<in>set ds. map_of pl d \<noteq> None \<Longrightarrow> \<exists>pl' a'. dayLoop ds bs people tgt pl a = Some (pl', a')"
proof (induction ds arbitrary: pl a)
  case Nil
  then show ?case by simp
next
  case (Cons d rest)
  show ?case
  proof (cases "d \<in> set bs")
    case True
    from Cons.prems(4) have "\<forall>d\<in>set rest. map_of pl d \<noteq> None" by simp
    with Cons.prems(1-3) have "\<exists>pl' a'. dayLoop rest bs people tgt pl a = Some (pl', a')"
      by (rule Cons.IH)
    with True show ?thesis by simp
  next
    case False
    from Cons.prems(4) obtain r where r: "map_of pl d = Some r" by auto
    with Cons.prems(2) have dr: "distinct (map fst r)" by (auto simp add: rows_distinct_def)
    from Cons.prems(3) r have "\<forall>i. open_in r i \<longrightarrow> i \<in> roster people"
      by (auto simp add: rows_ok_def)
    with Cons.prems(1) assms dr obtain r1 a1 where p: "processDay people tgt r a = Some (r1, a1)"
      using processDay_Some by blast
    then have "same_shape r r1" using dr by (rule processDay_shape)
    with r have s: "plan_shape pl (AList.update d r1 pl)" by (rule plan_shape_update)
    from p have "dom a1 = dom a" by (rule processDay_dom)
    with Cons.prems(1) have 1: "roster people \<subseteq> dom a1" by simp
    from s Cons.prems(2) have 2: "rows_distinct (AList.update d r1 pl)" by (rule plan_shape_distinct)
    from s Cons.prems(3) have 3: "rows_ok people (AList.update d r1 pl)" by (rule plan_shape_ok)
    from Cons.prems(4) have 4: "\<forall>d'\<in>set rest. map_of (AList.update d r1 pl) d' \<noteq> None"
      by (simp add: plan_shape_None [OF s])
    from 1 2 3 4 have "\<exists>pl' a'. dayLoop rest bs people tgt (AList.update d r1 pl) a1 = Some (pl', a')"
      by (rule Cons.IH)
    with False r p show ?thesis by simp
  qed
qed

lemma dayLoop_untouched:
  "dayLoop ds bs people tgt pl a = Some (pl', a') \<Longrightarrow> d \<notin> set ds \<or> d \<in> set bs \<Longrightarrow>
   map_of pl' d = map_of pl d"
proof (induction ds arbitrary: pl a)
  case Nil
  then show ?case by simp
next
  case (Cons d0 rest)
  from Cons.prems(1) show ?case
  proof (cases rule: dayLoop_ConsE)
    case skip
    from Cons.prems(2) have "d \<notin> set rest \<or> d \<in> set bs" by auto
    with skip(2) show ?thesis by (rule Cons.IH)
  next
    case (day r r1 a1)
    from Cons.prems(2) day(1) have ne: "d \<noteq> d0" and o: "d \<notin> set rest \<or> d \<in> set bs" by auto
    from day(4) o have "map_of pl' d = map_of (AList.update d0 r1 pl) d" by (rule Cons.IH)
    with ne show ?thesis by (simp add: update_conv')
  qed
qed

lemma dayLoop_first:
  assumes "dayLoop (d # rest) bs people tgt pl a = Some (pl', a')"
    and "d \<notin> set rest" and "d \<notin> set bs"
    and "map_of pl d = Some r" and "processDay people tgt r a = Some (r1, a1)"
  shows "map_of pl' d = Some r1"
proof -
  from assms(1,3,4,5) have l: "dayLoop rest bs people tgt (AList.update d r1 pl) a1 = Some (pl', a')"
    by simp
  have "map_of pl' d = map_of (AList.update d r1 pl) d"
    by (rule dayLoop_untouched [OF l]) (simp add: assms(2))
  then show ?thesis by (simp add: update_conv')
qed

lemma dayLoop_processed:
  "dayLoop ds bs people tgt pl a = Some (pl', a') \<Longrightarrow> distinct ds \<Longrightarrow> d \<in> set ds \<Longrightarrow> d \<notin> set bs \<Longrightarrow>
   \<exists>r a0 r1 a1. map_of pl d = Some r \<and> processDay people tgt r a0 = Some (r1, a1) \<and>
                 map_of pl' d = Some r1"
proof (induction ds arbitrary: pl a)
  case Nil
  then show ?case by simp
next
  case (Cons d0 rest)
  from Cons.prems(1) show ?case
  proof (cases rule: dayLoop_ConsE)
    case skip
    with Cons.prems(4) have "d \<noteq> d0" by auto
    with Cons.prems(3) have m: "d \<in> set rest" by simp
    from Cons.prems(2) have dr: "distinct rest" by simp
    from skip(2) dr m Cons.prems(4) show ?thesis by (rule Cons.IH)
  next
    case (day r r1 a1)
    show ?thesis
    proof (cases "d = d0")
      case True
      with Cons.prems(2) have n: "d \<notin> set rest" by simp
      have "map_of pl' d = map_of (AList.update d0 r1 pl) d"
        by (rule dayLoop_untouched [OF day(4)]) (simp add: n)
      with True have "map_of pl' d = Some r1" by (simp add: update_conv')
      with True day(2,3) show ?thesis by blast
    next
      case False
      with Cons.prems(3) have m: "d \<in> set rest" by simp
      from Cons.prems(2) have dr: "distinct rest" by simp
      from day(4) dr m Cons.prems(4)
      have "\<exists>r a0 r1' a1'. map_of (AList.update d0 r1 pl) d = Some r \<and>
              processDay people tgt r a0 = Some (r1', a1') \<and> map_of pl' d = Some r1'"
        by (rule Cons.IH)
      with False show ?thesis by (simp add: update_conv')
    qed
  qed
qed

section \<open>The generated table\<close>

lemma cell_row: "map_of pl d = Some r \<Longrightarrow> cell pl d i = map_of r i"
  by (simp add: cell_def)

lemma rows_ok_overridePlan: "rows_ok people (overridePlan monthDays bs oooData people)"
  unfolding rows_ok_def
proof (intro allI impI)
  fix d r i
  assume "map_of (overridePlan monthDays bs oooData people) d = Some r \<and> open_in r i"
  then have r: "map_of (overridePlan monthDays bs oooData people) d = Some r" and o: "open_in r i"
    by auto
  from o obtain s where s: "map_of r i = Some s" and n: "s \<noteq> OOO" by (auto simp add: open_in_def)
  from r s have "cell (overridePlan monthDays bs oooData people) d i = Some s" by (simp add: cell_row)
  with n show "i \<in> roster people"
    by (auto simp add: cell_overridePlan split: if_splits)
qed

lemma initActualDays_dom: "dom (initActualDays bs oooData people) = roster people"
  by (simp add: initActualDays_def fold_upd_dom roster_def)

lemma targetDays_dom: "dom (targetDays monthDays oooData people) = roster people"
  by (simp add: targetDays_def fold_upd_dom roster_def)

lemma generateSchedule_run:
  obtains pl a where
    "dayLoop monthDays bs people (targetDays monthDays oooData people)
       (overridePlan monthDays bs oooData people) (initActualDays bs oooData people) = Some (pl, a)"
    and "generateSchedule monthDays bs oooData people = Some \<lparr>plan_of = pl, days_of = monthDays\<rparr>"
    and "plan_shape (overridePlan monthDays bs oooData people) pl"
proof -
  let ?P = "overridePlan monthDays bs oooData people"
  let ?T = "targetDays monthDays oooData people"
  let ?A = "initActualDays bs oooData people"
  have t: "roster people \<subseteq> dom ?T" by (simp add: targetDays_dom)
  have a: "roster people \<subseteq> dom ?A" by (simp add: initActualDays_dom)
  have d: "rows_distinct ?P" by (rule rows_distinct_overridePlan)
  have ok: "rows_ok people ?P" by (rule rows_ok_overridePlan)
  have k: "\<forall>d\<in>set monthDays. map_of ?P d \<noteq> None" by (simp add: overridePlan_None)
  from dayLoop_Some [OF t a d ok k]
  obtain pl a' where l: "dayLoop monthDays bs people ?T ?P ?A = Some (pl, a')" by blast
  then have g: "generateSchedule monthDays bs oooData people = Some \<lparr>plan_of = pl, days_of = monthDays\<rparr>"
    by (simp add: generateSchedule_def)
  from l d have "plan_shape ?P pl" by (rule dayLoop_shape)
  with l g show ?thesis by (rule that)
qed

lemma counter_fold:
  "i \<in> pid ` set ps \<Longrightarrow> fold (\<lambda>q m. m(pid q \<mapsto> g (pid q))) ps m i = Some (g i)"
proof (induction ps arbitrary: m)
  case Nil
  then show ?case by simp
next
  case (Cons q ps)
  show ?case
  proof (cases "i \<in> pid ` set ps")
    case True
    then have "fold (\<lambda>q m. m(pid q \<mapsto> g (pid q))) ps (m(pid q \<mapsto> g (pid q))) i = Some (g i)"
      by (rule Cons.IH)
    then show ?thesis by (simp del: fun_upd_apply)
  next
    case False
    with Cons.prems have iq: "i = pid q" by simp
    from False have "fold (\<lambda>q m. m(pid q \<mapsto> g (pid q))) ps (m(pid q \<mapsto> g (pid q))) i
        = (m(pid q \<mapsto> g (pid q))) i"
      by (rule fold_upd_notin)
    also have "\<dots> = Some (g i)" using iq by simp
    finally show ?thesis by (simp del: fun_upd_apply)
  qed
qed

lemma initActualDays_lookup:
  "p \<in> set people \<Longrightarrow>
   initActualDays bs oooData people (pid p) =
     Some \<lparr>gc = 0, issy = int (length (filter (\<lambda>d. \<not> ooo_includes oooData (pid p) d) bs)), remote = 0\<rparr>"
  unfolding initActualDays_def bubbleLuxCount_def
  by (rule counter_fold [where g = "\<lambda>i. \<lparr>gc = 0, issy = int (length (filter (\<lambda>d. \<not> ooo_includes oooData i d) bs)), remote = 0\<rparr>"])
     simp


lemma row_values:
  assumes "map_of pl d = Some r" and "distinct (map fst r)" and "\<forall>i s. cell pl d i = Some s \<longrightarrow> s \<in> S"
  shows "snd ` set r \<subseteq> S"
proof
  fix s assume "s \<in> snd ` set r"
  then obtain i where "(i, s) \<in> set r" by auto
  with assms(2) have "map_of r i = Some s" by simp
  with assms(1) have "cell pl d i = Some s" by (simp add: cell_row)
  with assms(3) show "s \<in> S" by blast
qed

section \<open>Facts about the concrete month and roster\<close>

lemma distinct_SEPT_2025: "distinct SEPT_2025"
  by (simp add: SEPT_2025_def)

lemma distinct_PEOPLE: "distinct (map pid PEOPLE)"
  by (simp add: PEOPLE_def mk_person_def)

section \<open>The row of a day before the loop over the days\<close>

lemma map_of_markOOO:
  "map_of (markOOO i d' pl) d =
     (if d = d' then map_option (AList.update i OOO) (map_of pl d) else map_of pl d)"
  by (cases "map_of pl d'") (simp_all add: markOOO_def map_of_plan_set)

lemma map_of_fold_markOOO:
  "map_of (fold (markOOO i) dates pl) d =
     map_option (\<lambda>r. if d \<in> set dates then AList.update i OOO r else r) (map_of pl d)"
proof (induction dates arbitrary: pl)
  case Nil
  then show ?case by (simp add: option.map_ident)
next
  case (Cons d' dates)
  have step: "map_of (fold (markOOO i) (d' # dates) pl) d =
      map_option (\<lambda>r. if d \<in> set dates then AList.update i OOO r else r) (map_of (markOOO i d' pl) d)"
    by (simp add: Cons.IH)
  show ?case
  proof (cases "d = d'")
    case True
    then have "map_of (markOOO i d' pl) d = map_option (AList.update i OOO) (map_of pl d)"
      by (simp add: map_of_markOOO)
    with True step show ?thesis
      by (cases "map_of pl d") simp_all
  next
    case False
    then have "map_of (markOOO i d' pl) d = map_of pl d"
      by (simp add: map_of_markOOO)
    with False step show ?thesis by simp
  qed
qed

lemma map_of_applyOOO:
  "map_of (applyOOO pl oooData) d =
     map_option (fold (\<lambda>(i, dates) r. if d \<in> set dates then AList.update i OOO r else r) oooData)
       (map_of pl d)"
proof (induction oooData arbitrary: pl)
  case Nil
  then show ?case by (simp add: applyOOO_Nil option.map_ident)
next
  case (Cons e oooData)
  obtain i dates where e: "e = (i, dates)" by (cases e)
  show ?case
    by (cases "map_of pl d") (simp_all add: e applyOOO_Cons Cons.IH map_of_fold_markOOO)
qed

lemma map_of_forceISSY: "d \<noteq> d' \<Longrightarrow> map_of (forceISSY d' p pl) d = map_of pl d"
  by (simp add: forceISSY_def map_of_plan_set)

lemma map_of_bubbleDay: "d \<noteq> d' \<Longrightarrow> map_of (bubbleDay people d' pl) d = map_of pl d"
proof -
  assume n: "d \<noteq> d'"
  have "map_of (fold (forceISSY d') ps pl) d = map_of pl d" for ps
    by (induction ps arbitrary: pl) (simp_all add: map_of_forceISSY n)
  then show ?thesis by (simp add: bubbleDay_def)
qed

lemma map_of_applyBubbleLux: "d \<notin> set bs \<Longrightarrow> map_of (applyBubbleLux pl bs people) d = map_of pl d"
  unfolding applyBubbleLux_def
  by (induction bs arbitrary: pl) (auto simp add: map_of_bubbleDay)

lemma overridePlan_row:
  "d \<in> set monthDays \<Longrightarrow> d \<notin> set bs \<Longrightarrow>
   map_of (overridePlan monthDays bs oooData people) d =
     Some (fold (\<lambda>(i, dates) r. if d \<in> set dates then AList.update i OOO r else r) oooData
             (fromEntries (map (\<lambda>p. (pid p, REMOTE)) people)))"
  by (simp add: overridePlan_def map_of_applyBubbleLux map_of_applyOOO map_of_initPlan)

lemma ooo_includes_no_entry: "map_of oooData i = None \<Longrightarrow> ooo_includes oooData i d = False"
  by (simp add: ooo_includes_def)

lemma availableDays_no_entry:
  "map_of oooData (pid p) = None \<Longrightarrow> availableDays monthDays oooData p = int (length monthDays)"
  by (simp add: availableDays_def ooo_includes_no_entry)

lemma bubbleLuxCount_no_entry:
  "map_of oooData (pid p) = None \<Longrightarrow> bubbleLuxCount bs oooData p = int (length bs)"
  by (simp add: bubbleLuxCount_def ooo_includes_no_entry)

lemma targetDays_lookup:
  "distinct (map pid people) \<Longrightarrow> p \<in> set people \<Longrightarrow>
   targetDays monthDays oooData people (pid p) = Some (targetOf monthDays oooData p)"
  unfolding targetDays_def by (rule fold_upd_in)

lemma length_SEPT_2025: "length SEPT_2025 = 22"
  by (simp add: SEPT_2025_def)

section \<open>A day with two persons available\<close>

lemma ten_absent_row: "map_of (overridePlan SEPT_2025 [] TEN_ABSENT PEOPLE) ''2025-09-01'' = Some TWO_OPEN"
proof -
  have "''2025-09-01'' \<in> set SEPT_2025" by (simp add: SEPT_2025_def)
  then have "map_of (overridePlan SEPT_2025 [] TEN_ABSENT PEOPLE) ''2025-09-01'' =
     Some (fold (\<lambda>(i, dates) r. if ''2025-09-01'' \<in> set dates then AList.update i OOO r else r) TEN_ABSENT
             (fromEntries (map (\<lambda>p. (pid p, REMOTE)) PEOPLE)))"
    by (rule overridePlan_row) simp
  also have "fromEntries (map (\<lambda>p. (pid p, REMOTE)) PEOPLE) =
     [(''bertrand'', REMOTE), (''florence'', REMOTE), (''nicolas'', REMOTE), (''amelie'', REMOTE),
      (''karine'', REMOTE), (''lea'', REMOTE), (''dounia'', REMOTE), (''laurent'', REMOTE), (''eva'', REMOTE),
      (''herve'', REMOTE), (''mathilde'', REMOTE), (''rubie'', REMOTE)]"
    by (simp add: fromEntries_def PEOPLE_def mk_person_def)
  also have "fold (\<lambda>(i, dates) r. if ''2025-09-01'' \<in> set dates then AList.update i OOO r else r) TEN_ABSENT
     [(''bertrand'', REMOTE), (''florence'', REMOTE), (''nicolas'', REMOTE), (''amelie'', REMOTE),
      (''karine'', REMOTE), (''lea'', REMOTE), (''dounia'', REMOTE), (''laurent'', REMOTE), (''eva'', REMOTE),
      (''herve'', REMOTE), (''mathilde'', REMOTE), (''rubie'', REMOTE)] = TWO_OPEN"
    by (simp add: TEN_ABSENT_def TWO_OPEN_def)
  finally show ?thesis .
qed

lemma ten_absent_no_entry: "map_of TEN_ABSENT ''bertrand'' = None" "map_of TEN_ABSENT ''florence'' = None"
  by (simp_all add: TEN_ABSENT_def)

lemma ten_absent_targets:
  "targetDays SEPT_2025 TEN_ABSENT PEOPLE ''bertrand'' = Some \<lparr>gc = 15, issy = 2, remote = 5\<rparr>"
  "targetDays SEPT_2025 TEN_ABSENT PEOPLE ''florence'' = Some \<lparr>gc = 13, issy = 2, remote = 7\<rparr>"
proof -
  have b: "BERTRAND \<in> set PEOPLE" and f: "FLORENCE \<in> set PEOPLE"
    by (simp_all add: PEOPLE_def BERTRAND_def FLORENCE_def)
  have "availableDays SEPT_2025 TEN_ABSENT BERTRAND = 22"
    by (simp add: availableDays_no_entry BERTRAND_def mk_person_def ten_absent_no_entry length_SEPT_2025)
  then have "targetOf SEPT_2025 TEN_ABSENT BERTRAND = \<lparr>gc = 15, issy = 2, remote = 5\<rparr>"
    by (simp add: targetOf_def Let_def) (simp add: BERTRAND_def mk_person_def Math_round_def floor_rat_numeral_div)
  with targetDays_lookup [OF distinct_PEOPLE b, of SEPT_2025 TEN_ABSENT]
  show "targetDays SEPT_2025 TEN_ABSENT PEOPLE ''bertrand'' = Some \<lparr>gc = 15, issy = 2, remote = 5\<rparr>"
    by (simp add: BERTRAND_def mk_person_def)
  have "availableDays SEPT_2025 TEN_ABSENT FLORENCE = 22"
    by (simp add: availableDays_no_entry FLORENCE_def mk_person_def ten_absent_no_entry length_SEPT_2025)
  then have "targetOf SEPT_2025 TEN_ABSENT FLORENCE = \<lparr>gc = 13, issy = 2, remote = 7\<rparr>"
    by (simp add: targetOf_def Let_def) (simp add: FLORENCE_def mk_person_def Math_round_def floor_rat_numeral_div)
  with targetDays_lookup [OF distinct_PEOPLE f, of SEPT_2025 TEN_ABSENT]
  show "targetDays SEPT_2025 TEN_ABSENT PEOPLE ''florence'' = Some \<lparr>gc = 13, issy = 2, remote = 7\<rparr>"
    by (simp add: FLORENCE_def mk_person_def)
qed

lemma ten_absent_counters:
  "initActualDays [] TEN_ABSENT PEOPLE ''bertrand'' = Some \<lparr>gc = 0, issy = 0, remote = 0\<rparr>"
  "initActualDays [] TEN_ABSENT PEOPLE ''florence'' = Some \<lparr>gc = 0, issy = 0, remote = 0\<rparr>"
proof -
  have b: "BERTRAND \<in> set PEOPLE" and f: "FLORENCE \<in> set PEOPLE"
    by (simp_all add: PEOPLE_def BERTRAND_def FLORENCE_def)
  from initActualDays_lookup [OF b, of "[]" TEN_ABSENT]
  show "initActualDays [] TEN_ABSENT PEOPLE ''bertrand'' = Some \<lparr>gc = 0, issy = 0, remote = 0\<rparr>"
    by (simp add: BERTRAND_def mk_person_def)
  from initActualDays_lookup [OF f, of "[]" TEN_ABSENT]
  show "initActualDays [] TEN_ABSENT PEOPLE ''florence'' = Some \<lparr>gc = 0, issy = 0, remote = 0\<rparr>"
    by (simp add: FLORENCE_def mk_person_def)
qed

lemma ten_absent_still: "stillRemote PEOPLE TWO_OPEN = [BERTRAND, FLORENCE]"
  by (simp add: stillRemote_def PEOPLE_def TWO_OPEN_def mk_person_def BERTRAND_def FLORENCE_def)

lemma ten_absent_candidates:
  "gcCandidates PEOPLE TWO_OPEN (initActualDays [] TEN_ABSENT PEOPLE) (targetDays SEPT_2025 TEN_ABSENT PEOPLE)
     = Some [(BERTRAND, 307 / 10), (FLORENCE, 133 / 5)]"
  by (simp add: gcCandidates_def ten_absent_still gcPriorityOf_def)
     (simp add: BERTRAND_def FLORENCE_def mk_person_def ten_absent_targets ten_absent_counters calculateGCPriority_def Let_def)

lemma two_pids: "pid BERTRAND = ''bertrand''" "pid FLORENCE = ''florence''"
  by (simp_all add: BERTRAND_def FLORENCE_def mk_person_def)

lemma two_open_usage: "dayUsage TWO_OPEN GC = 0" "dayUsage (AList.update ''bertrand'' GC TWO_OPEN) GC = 1"
  by (simp_all add: TWO_OPEN_def dayUsage_Cons)

lemma two_open_update: "AList.update ''florence'' GC (AList.update ''bertrand'' GC TWO_OPEN) = TWO_AT_GC"
  by (simp add: TWO_OPEN_def TWO_AT_GC_def)

lemma ten_absent_fill:
  "\<exists>a1. fillGC [(BERTRAND, 307 / 10), (FLORENCE, 133 / 5)] TWO_OPEN (initActualDays [] TEN_ABSENT PEOPLE) = Some (TWO_AT_GC, a1)"
  by (simp add: two_pids two_open_usage two_open_update capacity_GC_def bump_gc_def ten_absent_counters)

lemma two_at_gc_usage: "dayUsage TWO_AT_GC GC = 2"
  by (simp add: TWO_AT_GC_def dayUsage_Cons)

lemma two_at_gc_still: "stillRemote PEOPLE TWO_AT_GC = []"
  by (simp add: stillRemote_def PEOPLE_def TWO_AT_GC_def mk_person_def)

lemma two_at_gc_floor: "floorGC PEOPLE ten_absent_targets TWO_AT_GC a1 = Some (TWO_AT_GC, a1)"
  by (simp add: floorGC_def two_at_gc_usage availableForGC_def gcCandidates_def two_at_gc_still)

lemma two_at_gc_route: "routeRest (stillRemote PEOPLE TWO_AT_GC) ten_absent_targets TWO_AT_GC a1 = Some (TWO_AT_GC, a1)"
  by (simp add: two_at_gc_still)

lemma two_at_gc_lone: "loneIssy TWO_AT_GC a1 = Some (TWO_AT_GC, a1)"
  by (rule loneIssy_none) (simp add: TWO_AT_GC_def)

lemma ten_absent_day:
  "\<exists>a1. processDay PEOPLE (targetDays SEPT_2025 TEN_ABSENT PEOPLE) TWO_OPEN (initActualDays [] TEN_ABSENT PEOPLE) = Some (TWO_AT_GC, a1)"
proof -
  from ten_absent_fill obtain a1 where
    "fillGC [(BERTRAND, 307 / 10), (FLORENCE, 133 / 5)] TWO_OPEN (initActualDays [] TEN_ABSENT PEOPLE) = Some (TWO_AT_GC, a1)"
    by blast
  with ten_absent_candidates have "processDay PEOPLE (targetDays SEPT_2025 TEN_ABSENT PEOPLE) TWO_OPEN (initActualDays [] TEN_ABSENT PEOPLE) = Some (TWO_AT_GC, a1)"
    using two_at_gc_floor two_at_gc_route two_at_gc_lone by (rule processDay_I)
  then show ?thesis by blast
qed

section \<open>A day of the whole roster, with and without an all-hands date outside the month\<close>

lemma mk_person_sel:
  "pid (mk_person i n g s r) = i"
  "name (mk_person i n g s r) = n"
  "gcShare (prefs (mk_person i n g s r)) = g"
  "issyShare (prefs (mk_person i n g s r)) = s"
  "remoteShare (prefs (mk_person i n g s r)) = r"
  by (simp_all add: mk_person_def)

lemma initActualDays_apply:
  "initActualDays bs oooData people i =
     (if i \<in> roster people
      then Some \<lparr>gc = 0, issy = int (length (filter (\<lambda>d. \<not> ooo_includes oooData i d) bs)), remote = 0\<rparr>
      else None)"
proof (cases "i \<in> roster people")
  case True
  then obtain p where "p \<in> set people" and "i = pid p" by (auto simp add: roster_def)
  with True show ?thesis by (simp add: initActualDays_lookup)
next
  case False
  then have "i \<notin> dom (initActualDays bs oooData people)" by (simp add: initActualDays_dom)
  with False show ?thesis by auto
qed

lemma targetDays_apply:
  "distinct (map pid people) \<Longrightarrow>
   targetDays monthDays oooData people i =
     map_option (targetOf monthDays oooData) (find (\<lambda>p. pid p = i) people)"
proof (cases "find (\<lambda>p. pid p = i) people")
  case None
  then have "i \<notin> roster people" by (auto simp add: find_None_iff roster_def)
  then have "i \<notin> dom (targetDays monthDays oooData people)" by (simp add: targetDays_dom)
  with None show ?thesis by auto
next
  case (Some p)
  assume d: "distinct (map pid people)"
  from Some have "p \<in> set people" and "pid p = i"
    by (auto simp add: find_Some_iff)
  with d Some show ?thesis using targetDays_lookup [of people p monthDays oooData] by simp
qed

lemma roster_PEOPLE:
  "roster PEOPLE = {''bertrand'', ''florence'', ''nicolas'', ''amelie'', ''karine'', ''lea'', ''dounia'',
     ''laurent'', ''eva'', ''herve'', ''mathilde'', ''rubie''}"
  by (simp add: roster_def PEOPLE_def mk_person_sel)

lemma herve_off_available:
  "map (availableDays SEPT_2025 HERVE_OFF) PEOPLE = [22, 22, 22, 22, 22, 22, 22, 22, 22, 21, 22, 22]"
  by (simp add: PEOPLE_def availableDays_def mk_person_sel ooo_includes_def HERVE_OFF_def SEPT_2025_def)

lemma map_of_map_find:
  "map_of (map (\<lambda>p. (pid p, f p)) ps) i = map_option f (find (\<lambda>p. pid p = i) ps)"
  by (induction ps) auto

lemma herve_off_targets:
  "targetDays SEPT_2025 HERVE_OFF PEOPLE i = map_of HERVE_OFF_TARGETS i"
proof -
  have "map (\<lambda>p. (pid p, targetOf SEPT_2025 HERVE_OFF p)) PEOPLE = HERVE_OFF_TARGETS"
    using herve_off_available
    by (simp add: PEOPLE_def HERVE_OFF_TARGETS_def targetOf_def Let_def mk_person_sel
        Math_round_def floor_rat_numeral_div)
  then have "map_of HERVE_OFF_TARGETS i =
      map_option (targetOf SEPT_2025 HERVE_OFF) (find (\<lambda>p. pid p = i) PEOPLE)"
    using map_of_map_find [of "targetOf SEPT_2025 HERVE_OFF" PEOPLE i] by simp
  then show ?thesis by (simp add: targetDays_apply distinct_PEOPLE)
qed

lemma all_open_row:
  shows "map_of (overridePlan SEPT_2025 [] HERVE_OFF PEOPLE) ''2025-09-01'' = Some ALL_OPEN"
    and "map_of (overridePlan SEPT_2025 [OUTSIDE] HERVE_OFF PEOPLE) ''2025-09-01'' = Some ALL_OPEN"
proof -
  have d: "''2025-09-01'' \<in> set SEPT_2025" by (simp add: SEPT_2025_def)
  have r: "fold (\<lambda>(i, dates) r. if ''2025-09-01'' \<in> set dates then AList.update i OOO r else r) HERVE_OFF
             (fromEntries (map (\<lambda>p. (pid p, REMOTE)) PEOPLE)) = ALL_OPEN"
    by (simp add: HERVE_OFF_def fromEntries_def PEOPLE_def mk_person_sel ALL_OPEN_def)
  from d show "map_of (overridePlan SEPT_2025 [] HERVE_OFF PEOPLE) ''2025-09-01'' = Some ALL_OPEN"
    by (simp add: overridePlan_row r)
  have n: "''2025-09-01'' \<notin> set [OUTSIDE]" by (simp add: OUTSIDE_def)
  show "map_of (overridePlan SEPT_2025 [OUTSIDE] HERVE_OFF PEOPLE) ''2025-09-01'' = Some ALL_OPEN"
    using overridePlan_row [OF d n, of HERVE_OFF PEOPLE] by (simp only: r)
qed

lemma step1_whole_roster:
  assumes A: "\<And>i. i \<in> roster PEOPLE \<Longrightarrow> A i = Some \<lparr>gc = 0, issy = k, remote = 0\<rparr>"
  shows "\<exists>cs. gcCandidates PEOPLE ALL_OPEN A (targetDays SEPT_2025 HERVE_OFF PEOPLE) = Some cs \<and>
           fillGC cs ALL_OPEN A =
             Some (FIVE_AT_GC,
                   A(''karine'' \<mapsto> \<lparr>gc = 1, issy = k, remote = 0\<rparr>,
                     ''bertrand'' \<mapsto> \<lparr>gc = 1, issy = k, remote = 0\<rparr>,
                     ''florence'' \<mapsto> \<lparr>gc = 1, issy = k, remote = 0\<rparr>,
                     ''nicolas'' \<mapsto> \<lparr>gc = 1, issy = k, remote = 0\<rparr>,
                     ''lea'' \<mapsto> \<lparr>gc = 1, issy = k, remote = 0\<rparr>))"
proof -
  let ?T = "targetDays SEPT_2025 HERVE_OFF PEOPLE"
  have a: "A ''bertrand'' = Some \<lparr>gc = 0, issy = k, remote = 0\<rparr>"
    "A ''florence'' = Some \<lparr>gc = 0, issy = k, remote = 0\<rparr>"
    "A ''nicolas'' = Some \<lparr>gc = 0, issy = k, remote = 0\<rparr>"
    "A ''amelie'' = Some \<lparr>gc = 0, issy = k, remote = 0\<rparr>"
    "A ''karine'' = Some \<lparr>gc = 0, issy = k, remote = 0\<rparr>"
    "A ''lea'' = Some \<lparr>gc = 0, issy = k, remote = 0\<rparr>"
    "A ''dounia'' = Some \<lparr>gc = 0, issy = k, remote = 0\<rparr>"
    "A ''laurent'' = Some \<lparr>gc = 0, issy = k, remote = 0\<rparr>"
    "A ''eva'' = Some \<lparr>gc = 0, issy = k, remote = 0\<rparr>"
    "A ''herve'' = Some \<lparr>gc = 0, issy = k, remote = 0\<rparr>"
    "A ''mathilde'' = Some \<lparr>gc = 0, issy = k, remote = 0\<rparr>"
    "A ''rubie'' = Some \<lparr>gc = 0, issy = k, remote = 0\<rparr>"
    by (simp_all add: A roster_PEOPLE)
  have s: "stillRemote PEOPLE ALL_OPEN = PEOPLE"
    by (simp add: stillRemote_def PEOPLE_def ALL_OPEN_def mk_person_sel)
  have T: "?T = map_of HERVE_OFF_TARGETS" by (rule ext) (rule herve_off_targets)
  have p: "map (gcPriorityOf A ?T) PEOPLE =
     [Some (307 / 10), Some (133 / 5), Some (491 / 20), Some (41 / 20), Some (409 / 10), Some (491 / 20),
      Some (491 / 20), Some (409 / 20), Some (41 / 5), Some (287 / 20), Some (327 / 20), Some (491 / 20)]"
    unfolding T
    by (simp add: PEOPLE_def gcPriorityOf_def mk_person_sel a
        HERVE_OFF_TARGETS_def calculateGCPriority_def Let_def)
  have t: "those (map (\<lambda>p. map_option (Pair p) (gcPriorityOf A ?T p)) PEOPLE) =
     Some [(mk_person ''bertrand'' ''Bertrand'' 70 10 20, 307 / 10),
           (mk_person ''florence'' ''Florence'' 60 10 30, 133 / 5),
           (mk_person ''nicolas'' ''Nicolas'' 55 15 30, 491 / 20),
           (mk_person ''amelie'' (''Am'' @ [CHR 0xE9] @ ''lie'') 5 5 90, 41 / 20),
           (mk_person ''karine'' ''Karine'' 90 5 5, 409 / 10),
           (mk_person ''lea'' (''L'' @ [CHR 0xE9] @ ''a'') 55 15 30, 491 / 20),
           (mk_person ''dounia'' ''Dounia'' 55 15 30, 491 / 20),
           (mk_person ''laurent'' ''Laurent'' 45 45 10, 409 / 20),
           (mk_person ''eva'' ''Eva'' 20 20 60, 41 / 5),
           (mk_person ''herve'' (''Herv'' @ [CHR 0xE9]) 35 35 30, 287 / 20),
           (mk_person ''mathilde'' ''Mathilde'' 35 35 30, 327 / 20),
           (mk_person ''rubie'' ''Rubie'' 55 15 30, 491 / 20)]"
    using p unfolding T by (simp add: PEOPLE_def)
  have c: "gcCandidates PEOPLE ALL_OPEN A ?T =
     Some [(mk_person ''karine'' ''Karine'' 90 5 5, 409 / 10),
           (mk_person ''bertrand'' ''Bertrand'' 70 10 20, 307 / 10),
           (mk_person ''florence'' ''Florence'' 60 10 30, 133 / 5),
           (mk_person ''nicolas'' ''Nicolas'' 55 15 30, 491 / 20),
           (mk_person ''lea'' (''L'' @ [CHR 0xE9] @ ''a'') 55 15 30, 491 / 20),
           (mk_person ''dounia'' ''Dounia'' 55 15 30, 491 / 20),
           (mk_person ''rubie'' ''Rubie'' 55 15 30, 491 / 20),
           (mk_person ''laurent'' ''Laurent'' 45 45 10, 409 / 20),
           (mk_person ''mathilde'' ''Mathilde'' 35 35 30, 327 / 20),
           (mk_person ''herve'' (''Herv'' @ [CHR 0xE9]) 35 35 30, 287 / 20),
           (mk_person ''eva'' ''Eva'' 20 20 60, 41 / 5),
           (mk_person ''amelie'' (''Am'' @ [CHR 0xE9] @ ''lie'') 5 5 90, 41 / 20)]"
    unfolding gcCandidates_def s t by simp
  show ?thesis
    unfolding c
    by (simp add: mk_person_sel capacity_GC_def bump_gc_def a ALL_OPEN_def FIVE_AT_GC_def
        dayUsage_Cons)
qed

lemma route_whole_roster_without:
  assumes A: "\<And>i. i \<in> roster PEOPLE \<Longrightarrow> A i = Some \<lparr>gc = 0, issy = 0, remote = 0\<rparr>"
  shows "\<exists>a3. routeRest (stillRemote PEOPLE FIVE_AT_GC) (targetDays SEPT_2025 HERVE_OFF PEOPLE) FIVE_AT_GC
           (A(''karine'' \<mapsto> \<lparr>gc = 1, issy = 0, remote = 0\<rparr>,
              ''bertrand'' \<mapsto> \<lparr>gc = 1, issy = 0, remote = 0\<rparr>,
              ''florence'' \<mapsto> \<lparr>gc = 1, issy = 0, remote = 0\<rparr>,
              ''nicolas'' \<mapsto> \<lparr>gc = 1, issy = 0, remote = 0\<rparr>,
              ''lea'' \<mapsto> \<lparr>gc = 1, issy = 0, remote = 0\<rparr>)) = Some (DAY_WITHOUT, a3)"
proof -
  let ?T = "targetDays SEPT_2025 HERVE_OFF PEOPLE"
  have a: "A ''amelie'' = Some \<lparr>gc = 0, issy = 0, remote = 0\<rparr>"
    "A ''dounia'' = Some \<lparr>gc = 0, issy = 0, remote = 0\<rparr>"
    "A ''laurent'' = Some \<lparr>gc = 0, issy = 0, remote = 0\<rparr>"
    "A ''eva'' = Some \<lparr>gc = 0, issy = 0, remote = 0\<rparr>"
    "A ''herve'' = Some \<lparr>gc = 0, issy = 0, remote = 0\<rparr>"
    "A ''mathilde'' = Some \<lparr>gc = 0, issy = 0, remote = 0\<rparr>"
    "A ''rubie'' = Some \<lparr>gc = 0, issy = 0, remote = 0\<rparr>"
    by (simp_all add: A roster_PEOPLE)
  have T: "?T = map_of HERVE_OFF_TARGETS" by (rule ext) (rule herve_off_targets)
  have s: "stillRemote PEOPLE FIVE_AT_GC =
     [mk_person ''amelie'' (''Am'' @ [CHR 0xE9] @ ''lie'') 5 5 90,
      mk_person ''dounia'' ''Dounia'' 55 15 30,
      mk_person ''laurent'' ''Laurent'' 45 45 10,
      mk_person ''eva'' ''Eva'' 20 20 60,
      mk_person ''herve'' (''Herv'' @ [CHR 0xE9]) 35 35 30,
      mk_person ''mathilde'' ''Mathilde'' 35 35 30,
      mk_person ''rubie'' ''Rubie'' 55 15 30]"
    by (simp add: stillRemote_def PEOPLE_def FIVE_AT_GC_def mk_person_sel)
  show ?thesis
    unfolding s T
    by (simp add: mk_person_sel a HERVE_OFF_TARGETS_def calculateIssyPriority_def
        calculateRemotePriority_def Let_def capacity_ISSY_def FIVE_AT_GC_def DAY_WITHOUT_def dayUsage_Cons)
qed

lemma route_whole_roster_with:
  assumes A: "\<And>i. i \<in> roster PEOPLE \<Longrightarrow> A i = Some \<lparr>gc = 0, issy = 1, remote = 0\<rparr>"
  shows "\<exists>a3. routeRest (stillRemote PEOPLE FIVE_AT_GC) (targetDays SEPT_2025 HERVE_OFF PEOPLE) FIVE_AT_GC
           (A(''karine'' \<mapsto> \<lparr>gc = 1, issy = 1, remote = 0\<rparr>,
              ''bertrand'' \<mapsto> \<lparr>gc = 1, issy = 1, remote = 0\<rparr>,
              ''florence'' \<mapsto> \<lparr>gc = 1, issy = 1, remote = 0\<rparr>,
              ''nicolas'' \<mapsto> \<lparr>gc = 1, issy = 1, remote = 0\<rparr>,
              ''lea'' \<mapsto> \<lparr>gc = 1, issy = 1, remote = 0\<rparr>)) = Some (DAY_WITH, a3)"
proof -
  let ?T = "targetDays SEPT_2025 HERVE_OFF PEOPLE"
  have a: "A ''amelie'' = Some \<lparr>gc = 0, issy = 1, remote = 0\<rparr>"
    "A ''dounia'' = Some \<lparr>gc = 0, issy = 1, remote = 0\<rparr>"
    "A ''laurent'' = Some \<lparr>gc = 0, issy = 1, remote = 0\<rparr>"
    "A ''eva'' = Some \<lparr>gc = 0, issy = 1, remote = 0\<rparr>"
    "A ''herve'' = Some \<lparr>gc = 0, issy = 1, remote = 0\<rparr>"
    "A ''mathilde'' = Some \<lparr>gc = 0, issy = 1, remote = 0\<rparr>"
    "A ''rubie'' = Some \<lparr>gc = 0, issy = 1, remote = 0\<rparr>"
    by (simp_all add: A roster_PEOPLE)
  have T: "?T = map_of HERVE_OFF_TARGETS" by (rule ext) (rule herve_off_targets)
  have s: "stillRemote PEOPLE FIVE_AT_GC =
     [mk_person ''amelie'' (''Am'' @ [CHR 0xE9] @ ''lie'') 5 5 90,
      mk_person ''dounia'' ''Dounia'' 55 15 30,
      mk_person ''laurent'' ''Laurent'' 45 45 10,
      mk_person ''eva'' ''Eva'' 20 20 60,
      mk_person ''herve'' (''Herv'' @ [CHR 0xE9]) 35 35 30,
      mk_person ''mathilde'' ''Mathilde'' 35 35 30,
      mk_person ''rubie'' ''Rubie'' 55 15 30]"
    by (simp add: stillRemote_def PEOPLE_def FIVE_AT_GC_def mk_person_sel)
  show ?thesis
    unfolding s T
    by (simp add: mk_person_sel a HERVE_OFF_TARGETS_def calculateIssyPriority_def
        calculateRemotePriority_def Let_def capacity_ISSY_def FIVE_AT_GC_def DAY_WITH_def dayUsage_Cons)
qed

lemma loneIssy_keep: "dayUsage r ISSY \<noteq> 1 \<Longrightarrow> loneIssy r a = Some (r, a)"
proof -
  assume "dayUsage r ISSY \<noteq> 1"
  then have "length (filter (\<lambda>(k, s). s = ISSY) r) \<noteq> 1"
    by (simp add: dayUsage_filter issy_filter)
  then have "\<not> (\<exists>k s. filter (\<lambda>(k, s). s = ISSY) r = [(k, s)])" by auto
  then show "loneIssy r a = Some (r, a)"
    unfolding loneIssy_def by (auto split: list.splits)
qed

lemma five_at_gc_floor: "floorGC PEOPLE tgt FIVE_AT_GC a = Some (FIVE_AT_GC, a)"
proof -
  have "dayUsage FIVE_AT_GC GC = 5" by (simp add: FIVE_AT_GC_def dayUsage_Cons)
  then show ?thesis by (simp add: floorGC_def)
qed

lemma whole_roster_day_without:
  assumes A: "\<And>i. i \<in> roster PEOPLE \<Longrightarrow> A i = Some \<lparr>gc = 0, issy = 0, remote = 0\<rparr>"
  shows "\<exists>a'. processDay PEOPLE (targetDays SEPT_2025 HERVE_OFF PEOPLE) ALL_OPEN A = Some (DAY_WITHOUT, a')"
proof -
  from step1_whole_roster [of A 0, OF A] obtain cs where
    c: "gcCandidates PEOPLE ALL_OPEN A (targetDays SEPT_2025 HERVE_OFF PEOPLE) = Some cs" and
    f: "fillGC cs ALL_OPEN A =
             Some (FIVE_AT_GC,
                   A(''karine'' \<mapsto> \<lparr>gc = 1, issy = 0, remote = 0\<rparr>,
                     ''bertrand'' \<mapsto> \<lparr>gc = 1, issy = 0, remote = 0\<rparr>,
                     ''florence'' \<mapsto> \<lparr>gc = 1, issy = 0, remote = 0\<rparr>,
                     ''nicolas'' \<mapsto> \<lparr>gc = 1, issy = 0, remote = 0\<rparr>,
                     ''lea'' \<mapsto> \<lparr>gc = 1, issy = 0, remote = 0\<rparr>))"
    by blast
  from route_whole_roster_without [of A, OF A] obtain a3 where
    r: "routeRest (stillRemote PEOPLE FIVE_AT_GC) (targetDays SEPT_2025 HERVE_OFF PEOPLE) FIVE_AT_GC
           (A(''karine'' \<mapsto> \<lparr>gc = 1, issy = 0, remote = 0\<rparr>,
              ''bertrand'' \<mapsto> \<lparr>gc = 1, issy = 0, remote = 0\<rparr>,
              ''florence'' \<mapsto> \<lparr>gc = 1, issy = 0, remote = 0\<rparr>,
              ''nicolas'' \<mapsto> \<lparr>gc = 1, issy = 0, remote = 0\<rparr>,
              ''lea'' \<mapsto> \<lparr>gc = 1, issy = 0, remote = 0\<rparr>)) = Some (DAY_WITHOUT, a3)"
    by blast
  have "dayUsage DAY_WITHOUT ISSY = 3" by (simp add: DAY_WITHOUT_def dayUsage_Cons)
  then have l: "loneIssy DAY_WITHOUT a3 = Some (DAY_WITHOUT, a3)" by (intro loneIssy_keep) simp
  from c f five_at_gc_floor r l
  have "processDay PEOPLE (targetDays SEPT_2025 HERVE_OFF PEOPLE) ALL_OPEN A = Some (DAY_WITHOUT, a3)"
    by (rule processDay_I)
  then show ?thesis by blast
qed

lemma whole_roster_day_with:
  assumes A: "\<And>i. i \<in> roster PEOPLE \<Longrightarrow> A i = Some \<lparr>gc = 0, issy = 1, remote = 0\<rparr>"
  shows "\<exists>a'. processDay PEOPLE (targetDays SEPT_2025 HERVE_OFF PEOPLE) ALL_OPEN A = Some (DAY_WITH, a')"
proof -
  from step1_whole_roster [of A 1, OF A] obtain cs where
    c: "gcCandidates PEOPLE ALL_OPEN A (targetDays SEPT_2025 HERVE_OFF PEOPLE) = Some cs" and
    f: "fillGC cs ALL_OPEN A =
             Some (FIVE_AT_GC,
                   A(''karine'' \<mapsto> \<lparr>gc = 1, issy = 1, remote = 0\<rparr>,
                     ''bertrand'' \<mapsto> \<lparr>gc = 1, issy = 1, remote = 0\<rparr>,
                     ''florence'' \<mapsto> \<lparr>gc = 1, issy = 1, remote = 0\<rparr>,
                     ''nicolas'' \<mapsto> \<lparr>gc = 1, issy = 1, remote = 0\<rparr>,
                     ''lea'' \<mapsto> \<lparr>gc = 1, issy = 1, remote = 0\<rparr>))"
    by blast
  from route_whole_roster_with [of A, OF A] obtain a3 where
    r: "routeRest (stillRemote PEOPLE FIVE_AT_GC) (targetDays SEPT_2025 HERVE_OFF PEOPLE) FIVE_AT_GC
           (A(''karine'' \<mapsto> \<lparr>gc = 1, issy = 1, remote = 0\<rparr>,
              ''bertrand'' \<mapsto> \<lparr>gc = 1, issy = 1, remote = 0\<rparr>,
              ''florence'' \<mapsto> \<lparr>gc = 1, issy = 1, remote = 0\<rparr>,
              ''nicolas'' \<mapsto> \<lparr>gc = 1, issy = 1, remote = 0\<rparr>,
              ''lea'' \<mapsto> \<lparr>gc = 1, issy = 1, remote = 0\<rparr>)) = Some (DAY_WITH, a3)"
    by blast
  have "dayUsage DAY_WITH ISSY = 2" by (simp add: DAY_WITH_def dayUsage_Cons)
  then have l: "loneIssy DAY_WITH a3 = Some (DAY_WITH, a3)" by (intro loneIssy_keep) simp
  from c f five_at_gc_floor r l
  have "processDay PEOPLE (targetDays SEPT_2025 HERVE_OFF PEOPLE) ALL_OPEN A = Some (DAY_WITH, a3)"
    by (rule processDay_I)
  then show ?thesis by blast
qed

section \<open>A roster of one person\<close>

lemma routeRest_gc:
  "routeRest ps tgt r a = Some (r', a') \<Longrightarrow> a i = Some c \<Longrightarrow> \<exists>c'. a' i = Some c' \<and> gc c' = gc c"
proof (induction ps arbitrary: r a c)
  case Nil
  then show ?case by simp
next
  case (Cons p ps)
  from Cons.prems(1) obtain a0 t where a0: "a (pid p) = Some a0" and t: "tgt (pid p) = Some t"
    by (auto split: option.splits)
  let ?a1 = "a(pid p \<mapsto> a0\<lparr>issy := issy a0 + 1\<rparr>)"
  let ?a2 = "a(pid p \<mapsto> a0\<lparr>remote := remote a0 + 1\<rparr>)"
  from Cons.prems(2) a0 have 1: "\<exists>c1. ?a1 i = Some c1 \<and> gc c1 = gc c" by auto
  from Cons.prems(2) a0 have 2: "\<exists>c1. ?a2 i = Some c1 \<and> gc c1 = gc c" by auto
  show ?case
  proof (cases "calculateIssyPriority p a0 t > calculateRemotePriority p a0 t \<and> dayUsage r ISSY < capacity_ISSY")
    case True
    with Cons.prems(1) a0 t
    have "routeRest ps tgt (AList.update (pid p) ISSY r) ?a1 = Some (r', a')" by (simp add: Let_def)
    with 1 show ?thesis using Cons.IH by metis
  next
    case False
    with Cons.prems(1) a0 t
    have "routeRest ps tgt (AList.update (pid p) REMOTE r) ?a2 = Some (r', a')" by (simp add: Let_def)
    with 2 show ?thesis using Cons.IH by metis
  qed
qed

lemma loneIssy_gc:
  "loneIssy r a = Some (r', a') \<Longrightarrow> a i = Some c \<Longrightarrow> \<exists>c'. a' i = Some c' \<and> gc c' = gc c"
proof (cases "\<exists>k s. filter (\<lambda>(k, s). s = ISSY) r = [(k, s)]")
  case True
  assume l: "loneIssy r a = Some (r', a')" and c: "a i = Some c"
  from True obtain k s where f: "filter (\<lambda>(k, s). s = ISSY) r = [(k, s)]" by blast
  with l obtain a0 where a0: "a k = Some a0" by (cases "a k") (simp_all add: loneIssy_def)
  with l f have "a' = a(k \<mapsto> a0\<lparr>issy := issy a0 - 1, remote := remote a0 + 1\<rparr>)"
    by (simp add: loneIssy_def)
  with c a0 show ?thesis by auto
next
  case False
  assume l: "loneIssy r a = Some (r', a')" and c: "a i = Some c"
  from False have "loneIssy r a = Some (r, a)"
    unfolding loneIssy_def by (auto split: list.splits)
  with l c show ?thesis by simp
qed

lemma update_set: "set (AList.update k v r) \<subseteq> insert (k, v) (set r)"
  by (induction r) auto

text \<open>The row that a day leaves for a roster of one person \<open>p\<close> with counters \<open>c\<close>.\<close>

lemma solo_day:
  assumes t: "tgt (pid p) = Some t" and c: "a (pid p) = Some c"
    and v: "snd ` set r \<subseteq> {REMOTE, OOO}"
  shows "\<exists>a' c'. processDay [p] tgt r a =
            Some (if solo_gc p c t r then AList.update (pid p) GC r else r, a') \<and>
          a' (pid p) = Some c' \<and>
          gc c' = (if solo_gc p c t r then gc c + 1 else gc c)"
proof -
  from v have "GC \<notin> snd ` set r" and noI: "ISSY \<notin> snd ` set r" by auto
  then have g0: "dayUsage r GC = 0" and i0: "dayUsage r ISSY = 0" by (simp_all add: dayUsage_zero_iff)
  show ?thesis
  proof (cases "map_of r (pid p) = Some REMOTE")
    case False
    then have s: "stillRemote [p] r = []" by (simp add: stillRemote_def)
    then have 1: "gcCandidates [p] r a tgt = Some []" by (simp add: gcCandidates_def)
    have 2: "fillGC [] r a = Some (r, a)" by simp
    have 3: "floorGC [p] tgt r a = Some (r, a)" by (simp add: floorGC_def g0)
    have 4: "routeRest (stillRemote [p] r) tgt r a = Some (r, a)" by (simp add: s)
    have 5: "loneIssy r a = Some (r, a)" using noI by (rule loneIssy_none)
    from 1 2 3 4 5 have "processDay [p] tgt r a = Some (r, a)" by (rule processDay_I)
    with False c show ?thesis by (simp add: solo_gc_def)
  next
    case True
    then have s: "stillRemote [p] r = [p]" by (simp add: stillRemote_def)
    let ?q = "calculateGCPriority p c t"
    have 1: "gcCandidates [p] r a tgt = Some [(p, ?q)]"
      by (simp add: gcCandidates_def s gcPriorityOf_def t c)
    show ?thesis
    proof (cases "?q > 0")
      case pos: True
      let ?r1 = "AList.update (pid p) GC r"
      let ?a1 = "a(pid p \<mapsto> c\<lparr>gc := gc c + 1\<rparr>)"
      have 2: "fillGC [(p, ?q)] r a = Some (?r1, ?a1)"
        by (simp add: g0 capacity_GC_def pos bump_gc_def c)
      have m1: "map_of ?r1 (pid p) = Some GC" by (simp add: update_conv')
      then have s1: "stillRemote [p] ?r1 = []" by (simp add: stillRemote_def)
      have "dayUsage ?r1 GC = dayUsage r GC + 1" using True by (rule dayUsage_update_new) simp
      with g0 have g1: "dayUsage ?r1 GC = 1" by simp
      have 3: "floorGC [p] tgt ?r1 ?a1 = Some (?r1, ?a1)"
        by (simp add: floorGC_def g1 availableForGC_def gcCandidates_def s1)
      have 4: "routeRest (stillRemote [p] ?r1) tgt ?r1 ?a1 = Some (?r1, ?a1)" by (simp add: s1)
      have "snd ` set ?r1 \<subseteq> insert GC (snd ` set r)" by (rule update_values)
      with noI have "ISSY \<notin> snd ` set ?r1" by auto
      then have 5: "loneIssy ?r1 ?a1 = Some (?r1, ?a1)" by (rule loneIssy_none)
      from 1 2 3 4 5 have "processDay [p] tgt r a = Some (?r1, ?a1)" by (rule processDay_I)
      with True pos show ?thesis by (simp add: solo_gc_def)
    next
      case neg: False
      have 2: "fillGC [(p, ?q)] r a = Some (r, a)"
        by (simp add: g0 capacity_GC_def neg)
      have 3: "floorGC [p] tgt r a = Some (r, a)" by (simp add: floorGC_def g0)
      have "\<forall>q\<in>set [p]. pid q \<in> dom a \<and> pid q \<in> dom tgt" using t c by auto
      then obtain r3 a3 where 4: "routeRest [p] tgt r a = Some (r3, a3)"
        using routeRest_Some by blast
      then obtain v where vv: "v = ISSY \<or> v = REMOTE" and r3: "r3 = AList.update (pid p) v r"
        by (rule routeRest_ConsE) simp
      from 4 c obtain c3 where c3: "a3 (pid p) = Some c3" and gc3: "gc c3 = gc c"
        using routeRest_gc by blast
      have "\<exists>a'. loneIssy r3 a3 = Some (r, a')"
      proof (cases "v = ISSY")
        case False
        with vv True r3 have "r3 = r" by (simp add: update_triv)
        with noI show ?thesis by (simp add: loneIssy_none)
      next
        case vi: True
        have in3: "set r3 \<subseteq> insert (pid p, ISSY) (set r)" unfolding r3 vi by (rule update_set)
        have "\<forall>k. (k, ISSY) \<in> set r3 \<longrightarrow> k \<in> dom a3"
        proof (intro allI impI)
          fix k assume "(k, ISSY) \<in> set r3"
          with in3 noI have "k = pid p" by force
          with c3 show "k \<in> dom a3" by auto
        qed
        then obtain r' a' where l: "loneIssy r3 a3 = Some (r', a')"
          using loneIssy_Some by blast
        have "dayUsage r3 ISSY = dayUsage r ISSY + 1"
          unfolding r3 vi using True by (rule dayUsage_update_new) simp
        with i0 have one: "dayUsage r3 ISSY = 1" by simp
        from l have "r' = r"
        proof (cases rule: loneIssy_E)
          case keep
          with one show ?thesis by simp
        next
          case (move k)
          from move(2) in3 noI have "k = pid p" by force
          with move(4) r3 vi have "r' = AList.update (pid p) REMOTE r" by simp
          with True show ?thesis by (simp add: update_triv)
        qed
        with l show ?thesis by blast
      qed
      then obtain a' where 5: "loneIssy r3 a3 = Some (r, a')" by blast
      from 5 c3 obtain c' where c': "a' (pid p) = Some c'" and "gc c' = gc c3"
        using loneIssy_gc by blast
      with gc3 have gc': "gc c' = gc c" by simp
      from 4 have route: "routeRest (stillRemote [p] r) tgt r a = Some (r3, a3)" by (simp add: s)
      from 1 2 3 route 5 have "processDay [p] tgt r a = Some (r, a')" by (rule processDay_I)
      with neg c' gc' show ?thesis by (simp add: solo_gc_def)
    qed
  qed
qed

lemma solo_gc_cong: "gc c = gc c' \<Longrightarrow> solo_gc p c' t r = solo_gc p c t r"
  by (simp add: solo_gc_def calculateGCPriority_def)

lemma solo_loop:
  assumes t: "tgt (pid p) = Some t" and m: "\<forall>d\<in>set allDays. (d \<in> set bs) = (d \<in> set bs')"
  shows "set ds \<subseteq> set allDays \<Longrightarrow> distinct ds \<Longrightarrow>
    \<forall>d\<in>set ds. d \<notin> set bs \<longrightarrow> (\<exists>r. map_of pl d = Some r \<and> snd ` set r \<subseteq> {REMOTE, OOO}) \<Longrightarrow>
    a (pid p) = Some c \<Longrightarrow> b (pid p) = Some c' \<Longrightarrow> gc c = gc c' \<Longrightarrow>
    map_option fst (dayLoop ds bs [p] tgt pl a) = map_option fst (dayLoop ds bs' [p] tgt pl b)"
proof (induction ds arbitrary: pl a b c c')
  case Nil
  then show ?case by simp
next
  case (Cons d ds)
  from Cons.prems(1) m have mb: "(d \<in> set bs) = (d \<in> set bs')" by simp
  from Cons.prems(1) have sub: "set ds \<subseteq> set allDays" by simp
  from Cons.prems(2) have dist: "distinct ds" and nd: "d \<notin> set ds" by simp_all
  show ?case
  proof (cases "d \<in> set bs")
    case True
    with mb have True': "d \<in> set bs'" by simp
    from Cons.prems(3) have rows: "\<forall>d\<in>set ds. d \<notin> set bs \<longrightarrow> (\<exists>r. map_of pl d = Some r \<and> snd ` set r \<subseteq> {REMOTE, OOO})"
      by simp
    have "map_option fst (dayLoop ds bs [p] tgt pl a) = map_option fst (dayLoop ds bs' [p] tgt pl b)"
      using sub dist rows Cons.prems(4) Cons.prems(5) Cons.prems(6) by (rule Cons.IH)
    moreover have "dayLoop (d # ds) bs [p] tgt pl a = dayLoop ds bs [p] tgt pl a"
      using True by simp
    moreover have "dayLoop (d # ds) bs' [p] tgt pl b = dayLoop ds bs' [p] tgt pl b"
      using True' by simp
    ultimately show ?thesis by simp
  next
    case False
    with mb have False': "d \<notin> set bs'" by simp
    from False Cons.prems(3) have "\<exists>r. map_of pl d = Some r \<and> snd ` set r \<subseteq> {REMOTE, OOO}"
      by simp
    then obtain r where r: "map_of pl d = Some r" and v: "snd ` set r \<subseteq> {REMOTE, OOO}"
      by blast
    define r' where "r' = (if solo_gc p c t r then AList.update (pid p) GC r else r)"
    have q: "solo_gc p c' t r = solo_gc p c t r"
      using Cons.prems(6) by (rule solo_gc_cong)
    from solo_day [where tgt = tgt and p = p and t = t and a = a and c = c and r = r, OF t Cons.prems(4) v]
    obtain a1 c1 where
      pa: "processDay [p] tgt r a = Some (r', a1)" and a1: "a1 (pid p) = Some c1"
      and g1: "gc c1 = (if solo_gc p c t r then gc c + 1 else gc c)"
      unfolding r'_def by blast
    from solo_day [where tgt = tgt and p = p and t = t and a = b and c = c' and r = r, OF t Cons.prems(5) v]
    obtain b1 c1' where
      pb: "processDay [p] tgt r b = Some (r', b1)" and b1: "b1 (pid p) = Some c1'"
      and g1': "gc c1' = (if solo_gc p c t r then gc c' + 1 else gc c')"
      unfolding r'_def q by blast
    from g1 g1' Cons.prems(6) have geq: "gc c1 = gc c1'" by simp
    have rows: "\<forall>d'\<in>set ds. d' \<notin> set bs \<longrightarrow>
        (\<exists>r. map_of (AList.update d r' pl) d' = Some r \<and> snd ` set r \<subseteq> {REMOTE, OOO})"
    proof (intro ballI impI)
      fix d' assume d': "d' \<in> set ds" and "d' \<notin> set bs"
      with Cons.prems(3) have "\<exists>r. map_of pl d' = Some r \<and> snd ` set r \<subseteq> {REMOTE, OOO}" by simp
      moreover from d' nd have "d' \<noteq> d" by auto
      ultimately show "\<exists>r. map_of (AList.update d r' pl) d' = Some r \<and> snd ` set r \<subseteq> {REMOTE, OOO}"
        by (simp add: update_conv')
    qed
    have "map_option fst (dayLoop ds bs [p] tgt (AList.update d r' pl) a1) =
          map_option fst (dayLoop ds bs' [p] tgt (AList.update d r' pl) b1)"
      using sub dist rows a1 b1 geq by (rule Cons.IH)
    moreover have "dayLoop (d # ds) bs [p] tgt pl a = dayLoop ds bs [p] tgt (AList.update d r' pl) a1"
      using False r pa by simp
    moreover have "dayLoop (d # ds) bs' [p] tgt pl b = dayLoop ds bs' [p] tgt (AList.update d r' pl) b1"
      using False' r pb by simp
    ultimately show ?thesis by simp
  qed
qed

section \<open>An all-hands date outside the month\<close>

lemma bubbleDay_no_row: "map_of pl d = None \<Longrightarrow> bubbleDay people d pl = pl"
  by (simp add: bubbleDay_def)

lemma applyBubbleLux_outside:
  "map_of pl d = None \<Longrightarrow> applyBubbleLux pl (bs1 @ d # bs2) people = applyBubbleLux pl (bs1 @ bs2) people"
proof -
  assume n: "map_of pl d = None"
  have "map_of (fold (bubbleDay people) bs1 pl) d = None"
    using n applyBubbleLux_None [of pl bs1 people d] by (simp add: applyBubbleLux_def)
  then have "bubbleDay people d (fold (bubbleDay people) bs1 pl) = fold (bubbleDay people) bs1 pl"
    by (rule bubbleDay_no_row)
  then show ?thesis by (simp add: applyBubbleLux_def)
qed

lemma overridePlan_outside:
  "d \<notin> set monthDays \<Longrightarrow>
   overridePlan monthDays (bs1 @ d # bs2) oooData people = overridePlan monthDays (bs1 @ bs2) oooData people"
  unfolding overridePlan_def
  by (rule applyBubbleLux_outside) (simp add: applyOOO_None map_of_initPlan)

lemma no_row_outside:
  assumes "d \<notin> set monthDays"
  shows "\<exists>s. generateSchedule monthDays bs oooData people = Some s \<and> map_of (plan_of s) d = None"
proof -
  obtain pl a where
    g: "generateSchedule monthDays bs oooData people = Some \<lparr>plan_of = pl, days_of = monthDays\<rparr>"
    and sh: "plan_shape (overridePlan monthDays bs oooData people) pl"
    by (rule generateSchedule_run)
  from sh assms have "map_of pl d = None"
    by (simp add: plan_shape_None overridePlan_None)
  with g show ?thesis by simp
qed

lemma seed_outside:
  assumes "p \<in> set people" and "\<not> ooo_includes oooData (pid p) d"
  shows "\<exists>c. initActualDays (bs1 @ bs2) oooData people (pid p) = Some c \<and>
             initActualDays (bs1 @ d # bs2) oooData people (pid p) = Some (c\<lparr>issy := issy c + 1\<rparr>)"
  using assms by (simp add: initActualDays_lookup)

lemma issy_priority_drop:
  "calculateIssyPriority p (c\<lparr>issy := issy c + 1\<rparr>) t = calculateIssyPriority p c t - 2"
  by (simp add: calculateIssyPriority_def Let_def)

lemma overridePlan_open_row:
  assumes "d \<in> set monthDays" and "d \<notin> set bs"
  shows "\<exists>r. map_of (overridePlan monthDays bs oooData people) d = Some r \<and> snd ` set r \<subseteq> {REMOTE, OOO}"
proof -
  let ?P = "overridePlan monthDays bs oooData people"
  from assms(1) obtain r where r: "map_of ?P d = Some r"
    using overridePlan_None [of monthDays bs oooData people d] by auto
  have d0: "distinct (map fst r)"
    using rows_distinct_overridePlan r by (auto simp add: rows_distinct_def)
  from assms(2) have "\<forall>i s. cell ?P d i = Some s \<longrightarrow> s \<in> {REMOTE, OOO}"
    by (auto simp add: cell_overridePlan split: if_splits)
  with r d0 have "snd ` set r \<subseteq> {REMOTE, OOO}" by (rule row_values)
  with r show ?thesis by blast
qed

lemma map_option_fst: "map_option (\<lambda>(pl, a). F pl) x = map_option F (map_option fst x)"
  by (cases x) auto

lemma solo_schedule:
  assumes "distinct monthDays" and "d \<notin> set monthDays"
  shows "generateSchedule monthDays (d # bs) oooData [p] = generateSchedule monthDays bs oooData [p]"
proof -
  let ?P = "overridePlan monthDays bs oooData [p]"
  let ?T = "targetDays monthDays oooData [p]"
  have P: "overridePlan monthDays (d # bs) oooData [p] = ?P"
    using overridePlan_outside [OF assms(2), of "[]" bs oooData "[p]"] by simp
  have "pid p \<in> dom ?T" by (simp add: targetDays_dom roster_def)
  then obtain t where t: "?T (pid p) = Some t" by auto
  have m: "\<forall>d'\<in>set monthDays. (d' \<in> set (d # bs)) = (d' \<in> set bs)"
    using assms(2) by auto
  have rows: "\<forall>d'\<in>set monthDays. d' \<notin> set (d # bs) \<longrightarrow>
      (\<exists>r. map_of ?P d' = Some r \<and> snd ` set r \<subseteq> {REMOTE, OOO})"
    by (simp add: overridePlan_open_row)
  have a: "initActualDays (d # bs) oooData [p] (pid p) =
      Some \<lparr>gc = 0, issy = int (length (filter (\<lambda>d. \<not> ooo_includes oooData (pid p) d) (d # bs))), remote = 0\<rparr>"
    by (rule initActualDays_lookup) simp
  have b: "initActualDays bs oooData [p] (pid p) =
      Some \<lparr>gc = 0, issy = int (length (filter (\<lambda>d. \<not> ooo_includes oooData (pid p) d) bs)), remote = 0\<rparr>"
    by (rule initActualDays_lookup) simp
  have "map_option fst (dayLoop monthDays (d # bs) [p] ?T ?P (initActualDays (d # bs) oooData [p])) =
        map_option fst (dayLoop monthDays bs [p] ?T ?P (initActualDays bs oooData [p]))"
  proof (rule solo_loop [where allDays = monthDays])
    show "?T (pid p) = Some t" by (rule t)
    show "\<forall>d'\<in>set monthDays. (d' \<in> set (d # bs)) = (d' \<in> set bs)" by (rule m)
    show "set monthDays \<subseteq> set monthDays" by simp
    show "distinct monthDays" by (rule assms(1))
    show "\<forall>d'\<in>set monthDays. d' \<notin> set (d # bs) \<longrightarrow>
      (\<exists>r. map_of ?P d' = Some r \<and> snd ` set r \<subseteq> {REMOTE, OOO})" by (rule rows)
    show "initActualDays (d # bs) oooData [p] (pid p) =
      Some \<lparr>gc = 0, issy = int (length (filter (\<lambda>d. \<not> ooo_includes oooData (pid p) d) (d # bs))), remote = 0\<rparr>"
      by (rule a)
    show "initActualDays bs oooData [p] (pid p) =
      Some \<lparr>gc = 0, issy = int (length (filter (\<lambda>d. \<not> ooo_includes oooData (pid p) d) bs)), remote = 0\<rparr>"
      by (rule b)
    show "gc \<lparr>gc = 0, issy = int (length (filter (\<lambda>d. \<not> ooo_includes oooData (pid p) d) (d # bs))), remote = 0\<rparr> =
          gc \<lparr>gc = 0, issy = int (length (filter (\<lambda>d. \<not> ooo_includes oooData (pid p) d) bs)), remote = 0\<rparr>"
      by simp
  qed
  then show ?thesis
    unfolding generateSchedule_def P by (simp only: map_option_fst)
qed

lemma outside_seed_zero: "i \<in> roster PEOPLE \<Longrightarrow> initActualDays [] HERVE_OFF PEOPLE i = Some \<lparr>gc = 0, issy = 0, remote = 0\<rparr>"
  by (simp add: initActualDays_apply)

lemma outside_seed_one: "i \<in> roster PEOPLE \<Longrightarrow> initActualDays [OUTSIDE] HERVE_OFF PEOPLE i = Some \<lparr>gc = 0, issy = 1, remote = 0\<rparr>"
  by (simp add: initActualDays_apply ooo_includes_def HERVE_OFF_def OUTSIDE_def)

lemma first_of_SEPT_2025:
  "SEPT_2025 = ''2025-09-01'' # tl SEPT_2025" "''2025-09-01'' \<notin> set (tl SEPT_2025)"
  by (simp_all add: SEPT_2025_def)

lemma OUTSIDE_not_in_SEPT_2025: "OUTSIDE \<notin> set SEPT_2025"
  by (simp add: SEPT_2025_def OUTSIDE_def)

lemma first_day_row:
  assumes "map_of (overridePlan SEPT_2025 bs oooData people) ''2025-09-01'' = Some r"
    and "processDay people (targetDays SEPT_2025 oooData people) r (initActualDays bs oooData people) = Some (r', a')"
    and "''2025-09-01'' \<notin> set bs"
  shows "\<exists>s. generateSchedule SEPT_2025 bs oooData people = Some s \<and>
             map_of (plan_of s) ''2025-09-01'' = Some r'"
proof -
  obtain pl a where
    l: "dayLoop SEPT_2025 bs people (targetDays SEPT_2025 oooData people)
          (overridePlan SEPT_2025 bs oooData people) (initActualDays bs oooData people) = Some (pl, a)"
    and g: "generateSchedule SEPT_2025 bs oooData people = Some \<lparr>plan_of = pl, days_of = SEPT_2025\<rparr>"
    by (rule generateSchedule_run)
  from l first_of_SEPT_2025(1)
  have l': "dayLoop (''2025-09-01'' # tl SEPT_2025) bs people (targetDays SEPT_2025 oooData people)
          (overridePlan SEPT_2025 bs oooData people) (initActualDays bs oooData people) = Some (pl, a)"
    by simp
  have "map_of pl ''2025-09-01'' = Some r'"
    by (rule dayLoop_first [OF l' first_of_SEPT_2025(2) assms(3) assms(1) assms(2)])
  with g show ?thesis by simp
qed

lemma outside_changes_herve:
  "\<exists>s0 s1. generateSchedule SEPT_2025 [] HERVE_OFF PEOPLE = Some s0 \<and>
           generateSchedule SEPT_2025 [OUTSIDE] HERVE_OFF PEOPLE = Some s1 \<and>
           cell (plan_of s0) ''2025-09-01'' ''herve'' = Some ISSY \<and>
           cell (plan_of s1) ''2025-09-01'' ''herve'' = Some REMOTE"
proof -
  from whole_roster_day_without [of "initActualDays [] HERVE_OFF PEOPLE", OF outside_seed_zero]
  obtain a0 where p0: "processDay PEOPLE (targetDays SEPT_2025 HERVE_OFF PEOPLE) ALL_OPEN
      (initActualDays [] HERVE_OFF PEOPLE) = Some (DAY_WITHOUT, a0)" by blast
  from whole_roster_day_with [of "initActualDays [OUTSIDE] HERVE_OFF PEOPLE", OF outside_seed_one]
  obtain a1 where p1: "processDay PEOPLE (targetDays SEPT_2025 HERVE_OFF PEOPLE) ALL_OPEN
      (initActualDays [OUTSIDE] HERVE_OFF PEOPLE) = Some (DAY_WITH, a1)" by blast
  from first_day_row [OF all_open_row(1) p0] obtain s0 where
    s0: "generateSchedule SEPT_2025 [] HERVE_OFF PEOPLE = Some s0"
    and r0: "map_of (plan_of s0) ''2025-09-01'' = Some DAY_WITHOUT" by auto
  have "''2025-09-01'' \<notin> set [OUTSIDE]" by (simp add: OUTSIDE_def)
  with first_day_row [OF all_open_row(2) p1] obtain s1 where
    s1: "generateSchedule SEPT_2025 [OUTSIDE] HERVE_OFF PEOPLE = Some s1"
    and r1: "map_of (plan_of s1) ''2025-09-01'' = Some DAY_WITH" by auto
  from r0 have "cell (plan_of s0) ''2025-09-01'' ''herve'' = Some ISSY"
    by (simp add: cell_def DAY_WITHOUT_def)
  moreover from r1 have "cell (plan_of s1) ''2025-09-01'' ''herve'' = Some REMOTE"
    by (simp add: cell_def DAY_WITH_def)
  ultimately show ?thesis using s0 s1 by blast
qed

section \<open>Import of a text\<close>

lemma parseCSV_fails_iff:
  "(\<exists>e. parseCSV csvText businessDays people = Inl e) \<longleftrightarrow> length (nonBlankLines csvText) < 2"
  by (simp add: parseCSV_def Let_def)

lemma importCSV_failure:
  "parseCSV csvText businessDays people = Inl e \<Longrightarrow> importCSV csvText businessDays people s = (s, True)"
  by (simp add: importCSV_def)

lemma importCSV_success:
  "parseCSV csvText businessDays people = Inr imp \<Longrightarrow>
   importCSV csvText businessDays people s =
     (s\<lparr>plan_st := imp_plan imp, bubbleLux := [], days_st := businessDays\<rparr>, False)"
  by (auto simp add: importCSV_def parseCSV_def Let_def split: if_splits)

lemmas csv_eval = nonBlankLines_def trim_def is_space_def str_includes_def sublist_code
  cellText_def siteOfLabel_def importRow_def importCell_def plan_set_def enumerate_eq_zip

lemma header_only_lines: "nonBlankLines HEADER_ONLY = [''Person,Mon 1 Sep'']"
  by (simp add: HEADER_ONLY_def csv_eval)

lemma malformed_lines: "nonBlankLines MALFORMED = [''Bertrand,Issy'', ''Nobody,Issy'', ''Florence'']"
  by (simp add: MALFORMED_def csv_eval)

lemma cut_short_lines: "nonBlankLines CUT_SHORT = [''Person,Mon 1 Sep'', ''Bertrand,Issy'', ''Florence'']"
  by (simp add: CUT_SHORT_def csv_eval)

lemma find_nobody: "find (\<lambda>p. name p = ''Nobody'') PEOPLE = None"
  by (simp add: PEOPLE_def mk_person_sel)

lemma find_bertrand: "find (\<lambda>p. name p = ''Bertrand'') PEOPLE = Some BERTRAND"
  by (simp add: PEOPLE_def mk_person_sel BERTRAND_def)

lemma malformed_parse:
  "parseCSV MALFORMED businessDays PEOPLE = Inr \<lparr>imp_plan = [], imp_bubbleLux = [], imp_days = businessDays\<rparr>"
  by (simp add: parseCSV_def malformed_lines Let_def str_includes_def sublist_code trim_def is_space_def find_nobody)

section \<open>Splitting and joining\<close>

lemma split_on_not_Nil [simp]: "split_on c s \<noteq> []"
  by (induction s) (auto split: list.splits)

lemma split_on_no_sep: "c \<notin> set s \<Longrightarrow> split_on c s = [s]"
  by (induction s) auto

lemma split_on_append: "c \<notin> set x \<Longrightarrow> split_on c (x @ c # rest) = x # split_on c rest"
  by (induction x) (auto split: list.splits)

lemma join_Cons: "ys \<noteq> [] \<Longrightarrow> join sep (x # ys) = x @ sep @ join sep ys"
  by (cases ys) simp_all

lemma split_join_append:
  "\<forall>x\<in>set xs. c \<notin> set x \<Longrightarrow> ys \<noteq> [] \<Longrightarrow>
   split_on c (join [c] (xs @ ys)) = xs @ split_on c (join [c] ys)"
proof (induction xs)
  case Nil
  then show ?case by simp
next
  case (Cons x xs)
  from Cons.prems(2) have "xs @ ys \<noteq> []" by simp
  then have "join [c] ((x # xs) @ ys) = x @ c # join [c] (xs @ ys)"
    by (simp add: join_Cons)
  moreover from Cons.prems(1) have "c \<notin> set x" by simp
  ultimately have "split_on c (join [c] ((x # xs) @ ys)) = x # split_on c (join [c] (xs @ ys))"
    by (simp add: split_on_append)
  with Cons show ?case by simp
qed

lemma split_join:
  "\<forall>x\<in>set xs. c \<notin> set x \<Longrightarrow> xs \<noteq> [] \<Longrightarrow> split_on c (join [c] xs) = xs"
proof (induction xs rule: rev_induct)
  case Nil
  then show ?case by simp
next
  case (snoc y xs)
  from snoc.prems(1) have 1: "\<forall>x\<in>set xs. c \<notin> set x" and 2: "c \<notin> set y" by simp_all
  from 1 have "split_on c (join [c] (xs @ [y])) = xs @ split_on c (join [c] [y])"
    by (rule split_join_append) simp
  with 2 show ?case by (simp add: split_on_no_sep)
qed

lemma no_sublist_across:
  assumes "c \<notin> set t" and "t \<noteq> []" and "\<not> sublist t x" and "\<not> sublist t r"
  shows "\<not> sublist t (x @ c # r)"
proof
  assume "sublist t (x @ c # r)"
  then consider "sublist t x" | "sublist t (c # r)"
    | t1 t2 where "t = t1 @ t2" and "suffix t1 x" and "prefix t2 (c # r)"
    unfolding sublist_append by blast
  then show False
  proof cases
    case 1
    with assms(3) show False ..
  next
    case 2
    then have "prefix t (c # r) \<or> sublist t r" by (simp add: sublist_Cons_right)
    with assms(4) have "prefix t (c # r)" by simp
    with assms(2) obtain t' where "t = c # t'" by (cases t) auto
    with assms(1) show False by simp
  next
    case (3 t1 t2)
    show False
    proof (cases t2)
      case Nil
      with 3 have "suffix t x" by simp
      then have "sublist t x" by (rule suffix_imp_sublist)
      with assms(3) show False ..
    next
      case (Cons a t2')
      with 3(3) have "a = c" by simp
      with Cons 3(1) assms(1) show False by simp
    qed
  qed
qed

lemma no_sublist_join:
  assumes "c \<notin> set t" and "t \<noteq> []"
  shows "\<forall>f\<in>set cols. \<not> sublist t f \<Longrightarrow> \<not> sublist t (join [c] cols)"
proof (induction cols)
  case Nil
  from assms(2) show ?case by simp
next
  case (Cons x cols)
  show ?case
  proof (cases "cols = []")
    case True
    with Cons.prems show ?thesis by simp
  next
    case False
    from Cons have "\<not> sublist t x" and "\<not> sublist t (join [c] cols)" by simp_all
    with assms have "\<not> sublist t (x @ c # join [c] cols)" by (intro no_sublist_across)
    with False show ?thesis by (simp add: join_Cons)
  qed
qed

lemma sublist_single: "sublist [c] s \<longleftrightarrow> c \<in> set s"
  by (induction s) (auto simp add: sublist_Cons_right)

lemma set_join: "set (join sep xs) \<subseteq> set sep \<union> \<Union> (set ` set xs)"
  by (induction sep xs rule: join.induct) auto

lemma set_join_Cons: "set x \<subseteq> set (join sep (x # ys))"
  by (cases ys) auto

lemma sep_in_join: "ys \<noteq> [] \<Longrightarrow> set sep \<subseteq> set (join sep (x # ys))"
  by (cases ys) auto

lemma trim_Nil_iff: "trim s = [] \<longleftrightarrow> (\<forall>c\<in>set s. is_space c)"
proof -
  have "trim s = [] \<longleftrightarrow> dropWhile is_space (rev (dropWhile is_space s)) = []"
    by (simp add: trim_def)
  also have "\<dots> \<longleftrightarrow> (\<forall>c\<in>set (dropWhile is_space s). is_space c)"
    by (simp add: dropWhile_eq_Nil_conv)
  also have "\<dots> \<longleftrightarrow> (\<forall>c\<in>set s. is_space c)"
  proof
    assume a: "\<forall>c\<in>set (dropWhile is_space s). is_space c"
    show "\<forall>c\<in>set s. is_space c"
    proof (rule ccontr)
      assume "\<not> (\<forall>c\<in>set s. is_space c)"
      then have "dropWhile is_space s \<noteq> []" by (simp add: dropWhile_eq_Nil_conv)
      then have "\<not> is_space (hd (dropWhile is_space s))" by (rule hd_dropWhile)
      moreover from \<open>dropWhile is_space s \<noteq> []\<close> have "hd (dropWhile is_space s) \<in> set (dropWhile is_space s)"
        by simp
      ultimately show False using a by blast
    qed
  next
    assume "\<forall>c\<in>set s. is_space c"
    then show "\<forall>c\<in>set (dropWhile is_space s). is_space c"
      using set_dropWhileD by fastforce
  qed
  finally show ?thesis .
qed

section \<open>Reading back what the export wrote\<close>

subsection \<open>The labels of the tags\<close>

lemma siteLabel_cases: "siteLabel a = ''Grand-Cerf'' \<or> siteLabel a = ''Issy'' \<or> siteLabel a = ''Remote''"
  by (simp add: siteLabel_def)

lemma siteLabel_no_comma: "CHR '','' \<notin> set (siteLabel a)"
  by (simp add: siteLabel_def)

lemma siteLabel_no_newline: "CHR 0x0A \<notin> set (siteLabel a)"
  by (simp add: siteLabel_def)

lemma siteLabel_trim: "trim (siteLabel a) = siteLabel a"
  using siteLabel_cases [of a] by (auto simp add: trim_def is_space_def)

lemma siteLabel_not_Nil: "siteLabel a \<noteq> []"
  by (simp add: siteLabel_def)

lemma siteLabel_no_section: "\<not> sublist ''BubbleLux'' (siteLabel a)"
  using siteLabel_cases [of a] by (auto simp add: sublist_code)

lemma siteOfLabel_siteLabel: "siteOfLabel (siteLabel a) = collapse a"
  by (cases a) (simp_all add: siteOfLabel_def siteLabel_def collapse_def)

lemma collapse_assignment:
  "collapse (assignment pl d i) = (case cell pl d i of Some GC \<Rightarrow> GC | Some ISSY \<Rightarrow> ISSY | _ \<Rightarrow> REMOTE)"
  by (simp add: collapse_def assignment_def split: option.splits site.splits)

subsection \<open>One row\<close>

lemma cell_importCell:
  "cell (importCell q parts (j, d) pl) d' i =
     (if d' = d \<and> i = pid q then Some (siteOfLabel (cellText parts (j + 1))) else cell pl d' i)"
proof (cases "map_of pl d = None")
  case True
  have "cell (AList.update d [] pl) d' i = cell pl d' i"
    using True by (simp add: cell_def update_conv')
  moreover have "map_of (AList.update d [] pl) d \<noteq> None" by (simp add: update_conv')
  ultimately show ?thesis using True by (simp add: importCell_def cell_plan_set)
next
  case False
  then obtain r where r: "map_of pl d = Some r" by blast
  then have "importCell q parts (j, d) pl = plan_set pl d (pid q) (siteOfLabel (cellText parts (j + 1)))"
    by (simp add: importCell_def)
  with r show ?thesis by (simp add: cell_plan_set)
qed

lemma cell_importCells:
  "\<forall>j<length days. siteOfLabel (cellText parts (n + j + 1)) = G (days ! j) \<Longrightarrow>
   cell (fold (importCell q parts) (enumerate n days) pl) d i =
     (if i = pid q \<and> d \<in> set days then Some (G d) else cell pl d i)"
proof (induction days arbitrary: n pl)
  case Nil
  then show ?case by simp
next
  case (Cons x xs)
  have "\<forall>j<length xs. siteOfLabel (cellText parts (Suc n + j + 1)) = G (xs ! j)"
  proof (intro allI impI)
    fix j assume "j < length xs"
    then have "Suc j < length (x # xs)" by simp
    with Cons.prems have "siteOfLabel (cellText parts (n + Suc j + 1)) = G ((x # xs) ! Suc j)" by blast
    then show "siteOfLabel (cellText parts (Suc n + j + 1)) = G (xs ! j)" by simp
  qed
  then have ih: "cell (fold (importCell q parts) (enumerate (Suc n) xs) (importCell q parts (n, x) pl)) d i =
     (if i = pid q \<and> d \<in> set xs then Some (G d) else cell (importCell q parts (n, x) pl) d i)"
    by (rule Cons.IH)
  from Cons.prems have "siteOfLabel (cellText parts (n + 0 + 1)) = G ((x # xs) ! 0)" by blast
  then have x: "siteOfLabel (cellText parts (n + 1)) = G x" by simp
  have "cell (fold (importCell q parts) (enumerate n (x # xs)) pl) d i =
      cell (fold (importCell q parts) (enumerate (Suc n) xs) (importCell q parts (n, x) pl)) d i"
    by simp
  also note ih
  also have "(if i = pid q \<and> d \<in> set xs then Some (G d) else cell (importCell q parts (n, x) pl) d i) =
      (if i = pid q \<and> d \<in> set (x # xs) then Some (G d) else cell pl d i)"
    using x by (auto simp add: cell_importCell)
  finally show ?case .
qed

lemma cellText_exported:
  assumes "j < length days"
  shows "cellText (n # map (\<lambda>day. siteLabel (f day)) days) (j + 1) = siteLabel (f (days ! j))"
  using assms by (simp add: cellText_def siteLabel_trim siteLabel_not_Nil)

lemma cell_importRow_exported:
  "cell (importRow q (n # map (\<lambda>day. siteLabel (assignment pl0 day (pid q))) days) days pl) d i =
     (if i = pid q \<and> d \<in> set days then Some (collapse (assignment pl0 d (pid q))) else cell pl d i)"
  unfolding importRow_def
proof (rule cell_importCells, intro allI impI)
  fix j assume "j < length days"
  then have "cellText (n # map (\<lambda>day. siteLabel (assignment pl0 day (pid q))) days) (j + 1)
      = siteLabel (assignment pl0 (days ! j) (pid q))"
    by (rule cellText_exported)
  then show "siteOfLabel (cellText (n # map (\<lambda>day. siteLabel (assignment pl0 day (pid q))) days) (0 + j + 1))
      = collapse (assignment pl0 (days ! j) (pid q))"
    by (simp add: siteOfLabel_siteLabel)
qed

lemma cell_exported_rows:
  "cell (fold (\<lambda>q. importRow q (name q # map (\<lambda>day. siteLabel (assignment pl0 day (pid q))) days) days) ps acc) d i =
     (if d \<in> set days \<and> i \<in> pid ` set ps then Some (collapse (assignment pl0 d i)) else cell acc d i)"
proof (induction ps arbitrary: acc)
  case Nil
  then show ?case by simp
next
  case (Cons q ps)
  then show ?case by (simp add: cell_importRow_exported) blast
qed

subsection \<open>The lines of a row\<close>

lemma find_by_name:
  "distinct (map name people) \<Longrightarrow> q \<in> set people \<Longrightarrow> find (\<lambda>p. name p = name q) people = Some q"
  by (induction people) auto

lemma csvRow_parts:
  assumes "csv_name (name q)"
  shows "split_on CHR '','' (csvRow pl0 days q) = name q # map (\<lambda>day. siteLabel (assignment pl0 day (pid q))) days"
  unfolding csvRow_def
proof (rule split_join [where c = "CHR '',''" and xs = "name q # map (\<lambda>day. siteLabel (assignment pl0 day (pid q))) days", simplified])
  from assms show "CHR '','' \<notin> set (name q) \<and> (\<forall>x\<in>set days. CHR '','' \<notin> set (siteLabel (assignment pl0 x (pid q))))"
    by (simp add: csv_name_def siteLabel_no_comma)
qed

lemma csvRow_comma:
  assumes "days \<noteq> []"
  shows "str_includes (csvRow pl0 days q) '',''"
proof -
  from assms have "map (\<lambda>day. siteLabel (assignment pl0 day (pid q))) days \<noteq> []" by simp
  then have "set '','' \<subseteq> set (csvRow pl0 days q)"
    unfolding csvRow_def by (rule sep_in_join)
  then show ?thesis by (simp add: str_includes_def sublist_single)
qed

lemma csvRow_no_section:
  assumes "csv_name (name q)"
  shows "\<not> str_includes (csvRow pl0 days q) ''BubbleLux''"
proof -
  let ?parts = "name q # map (\<lambda>day. siteLabel (assignment pl0 day (pid q))) days"
  have "\<not> sublist ''BubbleLux'' (join [CHR '',''] ?parts)"
  proof (rule no_sublist_join)
    show "CHR '','' \<notin> set ''BubbleLux''" by simp
    show "''BubbleLux'' \<noteq> []" by simp
    from assms show "\<forall>f\<in>set ?parts. \<not> sublist ''BubbleLux'' f"
      by (auto simp add: csv_name_def str_includes_def siteLabel_no_section)
  qed
  then show ?thesis by (simp add: str_includes_def csvRow_def)
qed

lemma csvRow_no_newline:
  assumes "csv_name (name q)"
  shows "CHR 0x0A \<notin> set (csvRow pl0 days q)"
proof
  assume "CHR 0x0A \<in> set (csvRow pl0 days q)"
  with set_join [of "'',''" "name q # map (\<lambda>day. siteLabel (assignment pl0 day (pid q))) days"]
  have "CHR 0x0A \<in> set (name q) \<or> (\<exists>day\<in>set days. CHR 0x0A \<in> set (siteLabel (assignment pl0 day (pid q))))"
    by (auto simp add: csvRow_def)
  with assms show False by (simp add: csv_name_def siteLabel_no_newline)
qed

lemma not_blank: "c \<in> set s \<Longrightarrow> \<not> is_space c \<Longrightarrow> trim s \<noteq> []"
  by (auto simp add: trim_Nil_iff)

lemma csvRow_not_blank:
  assumes "days \<noteq> []"
  shows "trim (csvRow pl0 days q) \<noteq> []"
proof (rule not_blank)
  from assms have "map (\<lambda>day. siteLabel (assignment pl0 day (pid q))) days \<noteq> []" by simp
  then have "set '','' \<subseteq> set (csvRow pl0 days q)"
    unfolding csvRow_def by (rule sep_in_join)
  then show "CHR '','' \<in> set (csvRow pl0 days q)" by simp
  show "\<not> is_space CHR '',''" by (simp add: is_space_def)
qed

subsection \<open>The loop over the lines\<close>

lemma parseRows_exported:
  assumes ok: "\<forall>p\<in>set people. csv_name (name p)" and days: "days \<noteq> []"
    and dist: "distinct (map name people)"
    and tail: "tail = [] \<or> str_includes (hd tail) ''BubbleLux''"
  shows "set ps \<subseteq> set people \<Longrightarrow>
    parseRows (map (csvRow pl0 days) ps @ tail) days people acc =
      fold (\<lambda>q. importRow q (name q # map (\<lambda>day. siteLabel (assignment pl0 day (pid q))) days) days) ps acc"
proof (induction ps arbitrary: acc)
  case Nil
  from tail show ?case by (cases tail) simp_all
next
  case (Cons q ps)
  from Cons.prems have q: "q \<in> set people" and ps: "set ps \<subseteq> set people" by simp_all
  from q ok have n: "csv_name (name q)" by blast
  let ?parts = "name q # map (\<lambda>day. siteLabel (assignment pl0 day (pid q))) days"
  have 1: "\<not> str_includes (csvRow pl0 days q) ''BubbleLux''" using n by (rule csvRow_no_section)
  have 2: "str_includes (csvRow pl0 days q) '',''" using days by (rule csvRow_comma)
  have 3: "split_on CHR '','' (csvRow pl0 days q) = ?parts" using n by (rule csvRow_parts)
  have 4: "\<not> length ?parts < 2" using days by (cases days) simp_all
  have 5: "find (\<lambda>p. name p = trim (hd ?parts)) people = Some q"
    using n find_by_name [OF dist q] by (simp add: csv_name_def)
  have "parseRows (map (csvRow pl0 days) (q # ps) @ tail) days people acc =
      parseRows (map (csvRow pl0 days) ps @ tail) days people (importRow q ?parts days acc)"
    using 1 2 4 5 by (simp add: 3 Let_def del: hd_map list.sel)
  also have "\<dots> = fold (\<lambda>q. importRow q (name q # map (\<lambda>day. siteLabel (assignment pl0 day (pid q))) days) days) ps
      (importRow q ?parts days acc)"
    using ps by (rule Cons.IH)
  finally show ?case by simp
qed

subsection \<open>The lines of the exported text\<close>

lemma section_lines:
  "\<exists>more. split_on (CHR 0x0A) (join [CHR 0x0A] ([[], ''BubbleLux Days:''] @ longs)) =
      [] # ''BubbleLux Days:'' # more"
proof (cases longs)
  case Nil
  then show ?thesis by (simp add: split_on_no_sep)
next
  case (Cons l ls)
  have "split_on (CHR 0x0A) (''BubbleLux Days:'' @ CHR 0x0A # join [CHR 0x0A] (l # ls)) =
      ''BubbleLux Days:'' # split_on (CHR 0x0A) (join [CHR 0x0A] (l # ls))"
    by (rule split_on_append) simp
  then show ?thesis using Cons by simp
qed

lemma header_no_newline:
  assumes "\<forall>d\<in>set days. CHR 0x0A \<notin> set (label d)"
  shows "CHR 0x0A \<notin> set (join '','' (''Person'' # map label days))"
proof
  assume "CHR 0x0A \<in> set (join '','' (''Person'' # map label days))"
  with set_join [of "'',''" "''Person'' # map label days"]
  have "\<exists>d\<in>set days. CHR 0x0A \<in> set (label d)" by auto
  with assms show False by blast
qed

lemma header_not_blank: "trim (join '','' (''Person'' # cols)) \<noteq> []"
proof (rule not_blank)
  show "CHR ''P'' \<in> set (join '','' (''Person'' # cols))"
    using set_join_Cons [of "''Person''" "'',''" cols] by auto
  show "\<not> is_space CHR ''P''" by (simp add: is_space_def)
qed

lemma exported_lines:
  assumes ok: "\<forall>p\<in>set people. csv_name (name p)" and days: "businessDays \<noteq> []"
    and lab: "\<forall>d\<in>set businessDays. CHR 0x0A \<notin> set (label d)"
  shows "\<exists>tail. nonBlankLines (generateCSV label longLabel state businessDays people) =
      join '','' (''Person'' # map label businessDays) # map (csvRow (plan_st state) businessDays) people @ tail
    \<and> (tail = [] \<or> str_includes (hd tail) ''BubbleLux'')"
proof -
  let ?h = "join '','' (''Person'' # map label businessDays)"
  let ?rows = "map (csvRow (plan_st state) businessDays) people"
  define bl where "bl = (case map_of (bubbleLux state) (monthISO state) of None \<Rightarrow> [] | Some ds \<Rightarrow> ds)"
  let ?sec = "[[], ''BubbleLux Days:''] @ map longLabel bl"
  have gen: "generateCSV label longLabel state businessDays people =
      join [CHR 0x0A] (?h # ?rows @ (if length bl > 0 then ?sec else []))"
    by (simp add: generateCSV_def Let_def bl_def)
  have nl: "\<forall>x\<in>set (?h # ?rows). CHR 0x0A \<notin> set x"
    using header_no_newline [OF lab] ok by (auto simp add: csvRow_no_newline)
  have nb: "filter (\<lambda>line. trim line \<noteq> []) (?h # ?rows) = ?h # ?rows"
    using days by (auto simp add: header_not_blank csvRow_not_blank filter_id_conv)
  show ?thesis
  proof (cases "length bl > 0")
    case False
    with gen have "generateCSV label longLabel state businessDays people = join [CHR 0x0A] (?h # ?rows)"
      by simp
    moreover from nl have "split_on (CHR 0x0A) (join [CHR 0x0A] (?h # ?rows)) = ?h # ?rows"
      by (rule split_join) simp
    ultimately have "nonBlankLines (generateCSV label longLabel state businessDays people) = ?h # ?rows @ []"
      using nb by (simp add: nonBlankLines_def)
    then show ?thesis by blast
  next
    case True
    with gen have g: "generateCSV label longLabel state businessDays people = join [CHR 0x0A] ((?h # ?rows) @ ?sec)"
      by simp
    from nl have "split_on (CHR 0x0A) (join [CHR 0x0A] ((?h # ?rows) @ ?sec)) =
        (?h # ?rows) @ split_on (CHR 0x0A) (join [CHR 0x0A] ?sec)"
      by (rule split_join_append) simp
    moreover obtain more where "split_on (CHR 0x0A) (join [CHR 0x0A] ?sec) = [] # ''BubbleLux Days:'' # more"
      using section_lines by blast
    ultimately have sp: "split_on (CHR 0x0A) (generateCSV label longLabel state businessDays people) =
        (?h # ?rows) @ [] # ''BubbleLux Days:'' # more"
      using g by simp
    have t: "trim ''BubbleLux Days:'' \<noteq> []" by (simp add: trim_def is_space_def)
    have e: "trim [] = []" by (simp add: trim_def)
    have "nonBlankLines (generateCSV label longLabel state businessDays people) =
        filter (\<lambda>line. trim line \<noteq> []) (?h # ?rows) @ ''BubbleLux Days:'' # filter (\<lambda>line. trim line \<noteq> []) more"
      unfolding nonBlankLines_def sp filter_append using t e by simp
    then have "nonBlankLines (generateCSV label longLabel state businessDays people) =
        ?h # ?rows @ (''BubbleLux Days:'' # filter (\<lambda>line. trim line \<noteq> []) more)"
      unfolding nb by simp
    moreover have "str_includes (hd (''BubbleLux Days:'' # filter (\<lambda>line. trim line \<noteq> []) more)) ''BubbleLux''"
      by (simp add: str_includes_def sublist_code)
    ultimately show ?thesis by blast
  qed
qed

subsection \<open>Export, then import\<close>

lemma cell_Nil: "cell [] d i = None"
  by (simp add: cell_def)

lemma exported_then_imported:
  assumes people: "people \<noteq> []" and days: "businessDays \<noteq> []"
    and dist: "distinct (map name people)"
    and ok: "\<forall>p\<in>set people. csv_name (name p)"
    and lab: "\<forall>d\<in>set businessDays. CHR 0x0A \<notin> set (label d)"
  shows "\<exists>pl. parseCSV (generateCSV label longLabel state businessDays people) businessDays people =
        Inr \<lparr>imp_plan = pl, imp_bubbleLux = [], imp_days = businessDays\<rparr>
    \<and> (\<forall>d i. cell pl d i =
         (if d \<in> set businessDays \<and> i \<in> pid ` set people
          then Some (collapse (assignment (plan_st state) d i)) else None))"
proof -
  let ?text = "generateCSV label longLabel state businessDays people"
  let ?h = "join '','' (''Person'' # map label businessDays)"
  let ?rows = "map (csvRow (plan_st state) businessDays) people"
  from exported_lines [OF ok days lab] obtain tail where
    ls: "nonBlankLines ?text = ?h # ?rows @ tail" and tail: "tail = [] \<or> str_includes (hd tail) ''BubbleLux''"
    by blast
  from people ls have len: "\<not> length (nonBlankLines ?text) < 2" by (cases people) simp_all
  define pl where "pl = parseRows (?rows @ tail) businessDays people []"
  from len ls have "parseCSV ?text businessDays people =
      Inr \<lparr>imp_plan = pl, imp_bubbleLux = [], imp_days = businessDays\<rparr>"
    by (simp add: parseCSV_def Let_def pl_def)
  moreover have "pl = fold (\<lambda>q. importRow q
        (name q # map (\<lambda>day. siteLabel (assignment (plan_st state) day (pid q))) businessDays) businessDays) people []"
    unfolding pl_def using ok days dist tail by (rule parseRows_exported) simp
  then have "\<forall>d i. cell pl d i =
         (if d \<in> set businessDays \<and> i \<in> pid ` set people
          then Some (collapse (assignment (plan_st state) d i)) else None)"
    using cell_Nil by (simp add: cell_exported_rows)
  ultimately show ?thesis by blast
qed

subsection \<open>A text that stops early\<close>

lemma bertrand_parts: "split_on CHR '','' ''Bertrand,Issy'' = [''Bertrand'', ''Issy'']"
  by simp

lemma cut_short_rows:
  "parseRows [''Bertrand,Issy'', ''Florence''] SEPT_2025 PEOPLE [] =
     importRow BERTRAND [''Bertrand'', ''Issy''] SEPT_2025 []"
  by (simp add: bertrand_parts str_includes_def sublist_code trim_def is_space_def find_bertrand)

lemma cut_short_cells:
  "cell (importRow BERTRAND [''Bertrand'', ''Issy''] SEPT_2025 []) ''2025-09-01'' ''bertrand'' = Some ISSY"
  "cell (importRow BERTRAND [''Bertrand'', ''Issy''] SEPT_2025 []) ''2025-09-02'' ''bertrand'' = Some REMOTE"
  "cell (importRow BERTRAND [''Bertrand'', ''Issy''] SEPT_2025 []) ''2025-09-01'' ''florence'' = None"
  by (simp_all add: importRow_def SEPT_2025_def enumerate_eq_zip upt_rec [of _ "numeral n" for n] importCell_def cellText_def siteOfLabel_def
      trim_def is_space_def plan_set_def BERTRAND_def mk_person_sel cell_def)

section \<open>Claims about the priority scorer and the target allocator\<close>






section \<open>Claims about the generated table\<close>



text \<open>
  C2. Absence has the highest precedence: when a business day of the month is in the
  absence list of an id, the generated table has OOO in that cell, whatever the all-hands
  dates are and whatever the greedy fill, the floor correction and the lone-occupant
  correction do.
\<close>

theorem absence_precedence:
  assumes "d \<in> set monthDays" and "ooo_includes oooData i d"
  shows "\<exists>s. generateSchedule monthDays bubbleLuxDates oooData people = Some s \<and>
             cell (plan_of s) d i = Some OOO"
proof -
  let ?P = "overridePlan monthDays bubbleLuxDates oooData people"
  obtain pl a where
    g: "generateSchedule monthDays bubbleLuxDates oooData people = Some \<lparr>plan_of = pl, days_of = monthDays\<rparr>"
    and sh: "plan_shape ?P pl"
    by (rule generateSchedule_run)
  from assms(1) obtain r where r: "map_of ?P d = Some r"
    using overridePlan_None [of monthDays bubbleLuxDates oooData people d] by auto
  with sh obtain r' where r': "map_of pl d = Some r'" and s: "same_shape r r'"
    using plan_shape_SomeD by blast
  from assms(2) have "absent_on oooData i d" by (rule ooo_includes_absent)
  with assms(1) have "cell ?P d i = Some OOO" by (simp add: cell_overridePlan)
  with r have "map_of r i = Some OOO" by (simp add: cell_row)
  with s have "map_of r' i = Some OOO" by (simp add: same_shape_OOO)
  with r' have "cell pl d i = Some OOO" by (simp add: cell_row)
  with g show ?thesis by simp
qed

text \<open>
  Witness for C2: Eva absent on 3 September 2025, which is also an all-hands date.
\<close>

theorem absence_precedence_witness:
  "''2025-09-03'' \<in> set SEPT_2025 \<and> ooo_includes [(''eva'', [''2025-09-03''])] ''eva'' ''2025-09-03'' \<and>
   (\<exists>s. generateSchedule SEPT_2025 [''2025-09-03''] [(''eva'', [''2025-09-03''])] PEOPLE = Some s \<and>
        cell (plan_of s) ''2025-09-03'' ''eva'' = Some OOO)"
proof -
  have d: "''2025-09-03'' \<in> set SEPT_2025" by (simp add: SEPT_2025_def)
  have o: "ooo_includes [(''eva'', [''2025-09-03''])] ''eva'' ''2025-09-03''"
    by (simp add: ooo_includes_def)
  from absence_precedence [OF d o, of "[''2025-09-03'']" PEOPLE] d o show ?thesis by blast
qed



section \<open>Claim about the occupancy of a day\<close>

text \<open>
  C3, as amended. For a month of distinct business days and a roster with distinct ids, on
  every business day of the generated table the GC occupancy is at most 5 and is 0, or at
  least 3, or every roster person is at GC or OOO on that day (the floor correction ran
  out of open persons); and on every business day that is not an all-hands day the ISSY
  occupancy is 0 or at least 2.
\<close>

theorem occupancy_bounds:
  assumes "distinct monthDays" and "distinct (map pid people)" and "d \<in> set monthDays"
  shows "\<exists>s r. generateSchedule monthDays bubbleLuxDates oooData people = Some s \<and>
           map_of (plan_of s) d = Some r \<and>
           dayUsage r GC \<le> 5 \<and>
           (dayUsage r GC = 0 \<or> 3 \<le> dayUsage r GC \<or>
            (\<forall>p\<in>set people. map_of r (pid p) = Some GC \<or> map_of r (pid p) = Some OOO)) \<and>
           (d \<notin> set bubbleLuxDates \<longrightarrow> dayUsage r ISSY = 0 \<or> 2 \<le> dayUsage r ISSY)"
proof -
  let ?P = "overridePlan monthDays bubbleLuxDates oooData people"
  let ?T = "targetDays monthDays oooData people"
  let ?A = "initActualDays bubbleLuxDates oooData people"
  obtain pl a where
    l: "dayLoop monthDays bubbleLuxDates people ?T ?P ?A = Some (pl, a)"
    and g: "generateSchedule monthDays bubbleLuxDates oooData people = Some \<lparr>plan_of = pl, days_of = monthDays\<rparr>"
    by (rule generateSchedule_run)
  from assms(3) obtain r0 where r0: "map_of ?P d = Some r0"
    using overridePlan_None [of monthDays bubbleLuxDates oooData people d] by auto
  have d0: "distinct (map fst r0)"
    using rows_distinct_overridePlan r0 by (auto simp add: rows_distinct_def)
  have "\<exists>r. map_of pl d = Some r \<and> dayUsage r GC \<le> 5 \<and>
           (dayUsage r GC = 0 \<or> 3 \<le> dayUsage r GC \<or>
            (\<forall>p\<in>set people. map_of r (pid p) = Some GC \<or> map_of r (pid p) = Some OOO)) \<and>
           (d \<notin> set bubbleLuxDates \<longrightarrow> dayUsage r ISSY = 0 \<or> 2 \<le> dayUsage r ISSY)"
  proof (cases "d \<in> set bubbleLuxDates")
    case True
    have "map_of pl d = map_of ?P d" by (rule dayLoop_untouched [OF l]) (simp add: True)
    with r0 have r: "map_of pl d = Some r0" by simp
    from True have "\<forall>i s. cell ?P d i = Some s \<longrightarrow> s \<in> {ISSY, OOO}"
      by (auto simp add: cell_overridePlan split: if_splits)
    with r0 d0 have "snd ` set r0 \<subseteq> {ISSY, OOO}" by (rule row_values)
    then have "GC \<notin> snd ` set r0" by auto
    then have "dayUsage r0 GC = 0" by (simp add: dayUsage_zero_iff)
    with r True show ?thesis by simp
  next
    case False
    from dayLoop_processed [OF l assms(1) assms(3) False] r0
    obtain a0 r1 a1 where p: "processDay people ?T r0 a0 = Some (r1, a1)" and r1: "map_of pl d = Some r1"
      by auto
    from False have "\<forall>i s. cell ?P d i = Some s \<longrightarrow> s \<in> {REMOTE, OOO}"
      by (auto simp add: cell_overridePlan split: if_splits)
    with r0 d0 have v: "snd ` set r0 \<subseteq> {REMOTE, OOO}" by (rule row_values)
    from processDay_GC [OF p d0 v assms(2)]
    have cap: "dayUsage r1 GC \<le> capacity_GC"
      and fl: "dayUsage r1 GC = 0 \<or> 3 \<le> dayUsage r1 GC \<or>
          (\<forall>p\<in>set people. map_of r1 (pid p) \<noteq> Some REMOTE \<and> map_of r1 (pid p) \<noteq> Some ISSY)"
      by auto
    from p d0 have sh: "same_shape r0 r1" by (rule processDay_shape)
    have ex: "map_of r1 (pid q) \<noteq> None" if "q \<in> set people" for q
    proof -
      from that assms(3) have "cell ?P d (pid q) \<noteq> None"
        by (simp add: cell_overridePlan roster_def)
      with r0 have "map_of r0 (pid q) \<noteq> None" by (simp add: cell_row)
      with sh show ?thesis by (simp add: same_shape_dom)
    qed
    have conv: "map_of r1 (pid q) = Some GC \<or> map_of r1 (pid q) = Some OOO"
      if "q \<in> set people" and "map_of r1 (pid q) \<noteq> Some REMOTE \<and> map_of r1 (pid q) \<noteq> Some ISSY" for q
    proof -
      from ex [OF that(1)] obtain s where s: "map_of r1 (pid q) = Some s" by auto
      with that(2) show ?thesis by (cases s) simp_all
    qed
    from fl conv have fl': "dayUsage r1 GC = 0 \<or> 3 \<le> dayUsage r1 GC \<or>
          (\<forall>p\<in>set people. map_of r1 (pid p) = Some GC \<or> map_of r1 (pid p) = Some OOO)"
      by blast
    from p d0 have "dayUsage r1 ISSY \<noteq> 1" by (rule processDay_ISSY)
    then have "dayUsage r1 ISSY = 0 \<or> 2 \<le> dayUsage r1 ISSY" by linarith
    with r1 cap fl' show ?thesis by (simp add: capacity_GC_def)
  qed
  with g show ?thesis by simp
qed

text \<open>
  Witness for C3: 1 September 2025 with the roster \<^verbatim>\<open>PEOPLE\<close>, one all-hands date on
  another day and one absence.
\<close>

theorem occupancy_bounds_witness:
  "\<exists>s r. generateSchedule SEPT_2025 [''2025-09-03''] [(''eva'', [''2025-09-01''])] PEOPLE = Some s \<and>
           map_of (plan_of s) ''2025-09-01'' = Some r \<and>
           dayUsage r GC \<le> 5 \<and>
           (dayUsage r GC = 0 \<or> 3 \<le> dayUsage r GC \<or>
            list_all (\<lambda>p. map_of r (pid p) = Some GC \<or> map_of r (pid p) = Some OOO) PEOPLE) \<and>
           (dayUsage r ISSY = 0 \<or> 2 \<le> dayUsage r ISSY)"
proof -
  have d: "''2025-09-01'' \<in> set SEPT_2025" by (simp add: SEPT_2025_def)
  have n: "''2025-09-01'' \<notin> set [''2025-09-03'']" by simp
  from occupancy_bounds [OF distinct_SEPT_2025 distinct_PEOPLE d, of "[''2025-09-03'']" "[(''eva'', [''2025-09-01''])]"] n
  show ?thesis unfolding list_all_iff by blast
qed

text \<open>
  C3, as stated, is false: with the roster \<^verbatim>\<open>PEOPLE\<close>, no all-hands date and everybody but
  Bertrand and Florence absent on 1 September 2025, both go to GC in step 1, the floor
  correction finds nobody else, and the GC occupancy of that day is 2.
\<close>

theorem floor_unmet_with_two_available:
  "\<exists>s r. generateSchedule SEPT_2025 [] TEN_ABSENT PEOPLE = Some s \<and>
          map_of (plan_of s) ''2025-09-01'' = Some r \<and> dayUsage r GC = 2 \<and>
          \<not> (dayUsage r GC = 0 \<or> (3 \<le> dayUsage r GC \<and> dayUsage r GC \<le> 5))"
proof -
  obtain pl a where
    l: "dayLoop SEPT_2025 [] PEOPLE (targetDays SEPT_2025 TEN_ABSENT PEOPLE)
          (overridePlan SEPT_2025 [] TEN_ABSENT PEOPLE) (initActualDays [] TEN_ABSENT PEOPLE) = Some (pl, a)"
    and g: "generateSchedule SEPT_2025 [] TEN_ABSENT PEOPLE = Some \<lparr>plan_of = pl, days_of = SEPT_2025\<rparr>"
    by (rule generateSchedule_run)
  from ten_absent_day obtain a1 where
    p: "processDay PEOPLE (targetDays SEPT_2025 TEN_ABSENT PEOPLE) TWO_OPEN (initActualDays [] TEN_ABSENT PEOPLE) = Some (TWO_AT_GC, a1)"
    by blast
  have s: "SEPT_2025 = ''2025-09-01'' # tl SEPT_2025" and n: "''2025-09-01'' \<notin> set (tl SEPT_2025)"
    by (simp_all add: SEPT_2025_def)
  from l s have l': "dayLoop (''2025-09-01'' # tl SEPT_2025) [] PEOPLE (targetDays SEPT_2025 TEN_ABSENT PEOPLE)
          (overridePlan SEPT_2025 [] TEN_ABSENT PEOPLE) (initActualDays [] TEN_ABSENT PEOPLE) = Some (pl, a)"
    by simp
  have "map_of pl ''2025-09-01'' = Some TWO_AT_GC"
    by (rule dayLoop_first [OF l' n _ ten_absent_row p]) simp
  with g two_at_gc_usage show ?thesis by simp
qed

section \<open>Claim about an all-hands date outside the month\<close>

text \<open>
  C10, as amended. For an all-hands date that is not a business day of the month,
  wherever it stands in the list of all-hands dates: the generated plan has no row for
  it and the plan before the greedy phase is the same as without the date; the ISSY
  counter of every roster person who is not absent on that date starts one higher than
  without the date, which lowers that person's ISSY priority by 2 for the same counters
  otherwise. This can change the generated table: in September 2025, with the roster
  \<^verbatim>\<open>PEOPLE\<close> and Herve absent on 2 September, Herve is at ISSY on 1 September without the
  date 2025-10-01 among the all-hands dates and on REMOTE with it.
\<close>

theorem outside_all_hands_date:
  assumes "d \<notin> set monthDays" and "p \<in> set people" and "\<not> ooo_includes oooData (pid p) d"
  shows "(\<exists>s. generateSchedule monthDays (bs1 @ d # bs2) oooData people = Some s \<and>
              map_of (plan_of s) d = None) \<and>
         overridePlan monthDays (bs1 @ d # bs2) oooData people =
           overridePlan monthDays (bs1 @ bs2) oooData people \<and>
         (\<exists>c. initActualDays (bs1 @ bs2) oooData people (pid p) = Some c \<and>
              initActualDays (bs1 @ d # bs2) oooData people (pid p) = Some (c\<lparr>issy := issy c + 1\<rparr>) \<and>
              (\<forall>t. calculateIssyPriority p (c\<lparr>issy := issy c + 1\<rparr>) t = calculateIssyPriority p c t - 2)) \<and>
         (\<exists>s0 s1. OUTSIDE \<notin> set SEPT_2025 \<and>
              generateSchedule SEPT_2025 [] HERVE_OFF PEOPLE = Some s0 \<and>
              generateSchedule SEPT_2025 [OUTSIDE] HERVE_OFF PEOPLE = Some s1 \<and>
              cell (plan_of s0) ''2025-09-01'' ''herve'' = Some ISSY \<and>
              cell (plan_of s1) ''2025-09-01'' ''herve'' = Some REMOTE)"
proof (intro conjI)
  from assms(1) show "\<exists>s. generateSchedule monthDays (bs1 @ d # bs2) oooData people = Some s \<and>
              map_of (plan_of s) d = None"
    by (rule no_row_outside)
  from assms(1) show "overridePlan monthDays (bs1 @ d # bs2) oooData people =
           overridePlan monthDays (bs1 @ bs2) oooData people"
    by (rule overridePlan_outside)
  from seed_outside [OF assms(2,3)] show "\<exists>c. initActualDays (bs1 @ bs2) oooData people (pid p) = Some c \<and>
              initActualDays (bs1 @ d # bs2) oooData people (pid p) = Some (c\<lparr>issy := issy c + 1\<rparr>) \<and>
              (\<forall>t. calculateIssyPriority p (c\<lparr>issy := issy c + 1\<rparr>) t = calculateIssyPriority p c t - 2)"
    by (simp add: issy_priority_drop)
  from outside_changes_herve OUTSIDE_not_in_SEPT_2025
  show "\<exists>s0 s1. OUTSIDE \<notin> set SEPT_2025 \<and>
              generateSchedule SEPT_2025 [] HERVE_OFF PEOPLE = Some s0 \<and>
              generateSchedule SEPT_2025 [OUTSIDE] HERVE_OFF PEOPLE = Some s1 \<and>
              cell (plan_of s0) ''2025-09-01'' ''herve'' = Some ISSY \<and>
              cell (plan_of s1) ''2025-09-01'' ''herve'' = Some REMOTE"
    by simp
qed

text \<open>
  Witness for C10: the date 2025-10-01 after one all-hands date of September 2025; no row
  for it, and the ISSY counter of Eva starts at 2 instead of 1.
\<close>

theorem outside_all_hands_date_witness:
  "OUTSIDE \<notin> set SEPT_2025 \<and> mk_person ''eva'' ''Eva'' 20 20 60 \<in> set PEOPLE \<and>
   \<not> ooo_includes HERVE_OFF ''eva'' OUTSIDE \<and>
   (\<exists>s. generateSchedule SEPT_2025 [''2025-09-03'', OUTSIDE] HERVE_OFF PEOPLE = Some s \<and>
        map_of (plan_of s) OUTSIDE = None) \<and>
   initActualDays [''2025-09-03''] HERVE_OFF PEOPLE ''eva'' = Some \<lparr>gc = 0, issy = 1, remote = 0\<rparr> \<and>
   initActualDays [''2025-09-03'', OUTSIDE] HERVE_OFF PEOPLE ''eva'' = Some \<lparr>gc = 0, issy = 2, remote = 0\<rparr>"
proof -
  have 1: "OUTSIDE \<notin> set SEPT_2025" by (rule OUTSIDE_not_in_SEPT_2025)
  have 2: "mk_person ''eva'' ''Eva'' 20 20 60 \<in> set PEOPLE" by (simp add: PEOPLE_def)
  have 3: "\<not> ooo_includes HERVE_OFF (pid (mk_person ''eva'' ''Eva'' 20 20 60)) OUTSIDE"
    by (simp add: ooo_includes_def HERVE_OFF_def mk_person_sel)
  have 4: "\<not> ooo_includes HERVE_OFF ''eva'' ''2025-09-03''"
    by (simp add: ooo_includes_def HERVE_OFF_def)
  from outside_all_hands_date [OF 1 2 3, of "[''2025-09-03'']" "[]"]
  have "(\<exists>s. generateSchedule SEPT_2025 [''2025-09-03'', OUTSIDE] HERVE_OFF PEOPLE = Some s \<and>
              map_of (plan_of s) OUTSIDE = None) \<and>
        (\<exists>c. initActualDays [''2025-09-03''] HERVE_OFF PEOPLE ''eva'' = Some c \<and>
              initActualDays [''2025-09-03'', OUTSIDE] HERVE_OFF PEOPLE ''eva'' = Some (c\<lparr>issy := issy c + 1\<rparr>))"
    by (simp add: mk_person_sel) blast
  moreover have "initActualDays [''2025-09-03''] HERVE_OFF PEOPLE ''eva'' = Some \<lparr>gc = 0, issy = 1, remote = 0\<rparr>"
    using 4 by (simp add: initActualDays_apply roster_PEOPLE)
  ultimately show ?thesis using 1 2 3 by (auto simp add: mk_person_sel)
qed

text \<open>
  C10, as stated, is false: the claim says that such a date changes the generated table.
  For a roster of Karine alone, who is not absent, the date 2025-10-01 raises her starting
  ISSY counter from 0 to 1, and the generated schedule of September 2025 is the same with
  and without the date (a lone person at ISSY is moved to REMOTE in any case).
\<close>

theorem outside_date_without_effect_on_table:
  "OUTSIDE \<notin> set SEPT_2025 \<and> \<not> ooo_includes [] (pid KARINE) OUTSIDE \<and>
   initActualDays [] [] [KARINE] ''karine'' = Some \<lparr>gc = 0, issy = 0, remote = 0\<rparr> \<and>
   initActualDays [OUTSIDE] [] [KARINE] ''karine'' = Some \<lparr>gc = 0, issy = 1, remote = 0\<rparr> \<and>
   generateSchedule SEPT_2025 [OUTSIDE] [] [KARINE] = generateSchedule SEPT_2025 [] [] [KARINE]"
proof -
  have "generateSchedule SEPT_2025 [OUTSIDE] [] [KARINE] = generateSchedule SEPT_2025 [] [] [KARINE]"
    using distinct_SEPT_2025 OUTSIDE_not_in_SEPT_2025 by (rule solo_schedule)
  moreover have "initActualDays [] [] [KARINE] ''karine'' = Some \<lparr>gc = 0, issy = 0, remote = 0\<rparr>"
    by (simp add: initActualDays_apply roster_def KARINE_def mk_person_sel)
  moreover have "initActualDays [OUTSIDE] [] [KARINE] ''karine'' = Some \<lparr>gc = 0, issy = 1, remote = 0\<rparr>"
    by (simp add: initActualDays_apply roster_def KARINE_def mk_person_sel ooo_includes_def)
  ultimately show ?thesis
    by (simp add: OUTSIDE_not_in_SEPT_2025 ooo_includes_def)
qed

end
